theory Spec2Isabelle
  imports Complex_Main "HOL-Library.Word"
begin

section \<open>Items, errors and the execution context\<close>

text \<open>
  Modelled from the spec: the class \<open>Item\<close> (item.h) is not in these files. The spec
  has an Item carry a type tag, a scalar payload (nil, boolean, integer, floating
  point) and, for the instance types, the handler class and the instance pointer. The
  constructors are the type tags the sources switch on; \<open>setBoolean\<close>, \<open>setInteger\<close>
  and \<open>setNumeric\<close> make the item one of that tag. Integers are \<open>int64\<close>. The payload
  of \<open>FLC_ITEM_NUM\<close> is the C++ \<open>numeric\<close> (a double): its type is the parameter \<open>'f\<close>,
  and every floating-point operation the code performs is a field of the engine record
  below, so that nothing about rounding is assumed. A deep or user item carries its
  handler class and the address of its instance.
\<close>

type_synonym int64 = "64 word"

datatype 'f item =
    FLC_ITEM_NIL
  | FLC_ITEM_BOOL bool
  | FLC_ITEM_INT int64
  | FLC_ITEM_NUM 'f
  | FLC_ITEM_FUNC nat
  | FLC_ITEM_METHOD nat nat
  | FLC_ITEM_BASEMETHOD nat nat
  | FLC_ITEM_DEEP nat nat
  | FLC_ITEM_USER nat nat

text \<open>
  \<open>ErrorParam\<close> (error.h): the constructor takes the code, the line and the file or
  module name; \<open>extra\<close> and \<open>symbol\<close> set one field each and return the parameter.
  Of the error codes (error_messages.h, not in these files) only the two names the
  sources use are listed.
\<close>

datatype errcode = e_invalid_op | e_undef_sym

record ErrorParam =
  m_errorCode :: errcode
  m_line :: nat
  m_module :: string
  m_symbol :: string
  m_extra :: string

definition ErrorParam :: "errcode \<Rightarrow> nat \<Rightarrow> string \<Rightarrow> ErrorParam" where
  "ErrorParam code line file =
     \<lparr> m_errorCode = code, m_line = line, m_module = file, m_symbol = [], m_extra = [] \<rparr>"

definition extra :: "string \<Rightarrow> ErrorParam \<Rightarrow> ErrorParam" where
  "extra e p = p\<lparr> m_extra := e \<rparr>"

definition symbol :: "string \<Rightarrow> ErrorParam \<Rightarrow> ErrorParam" where
  "symbol s p = p\<lparr> m_symbol := s \<rparr>"

text \<open>
  What a step can end in besides a new context: a thrown \<open>OperandError\<close> or
  \<open>CodeError\<close>, a failed \<open>fassert\<close>, or a read of \<open>topData()\<close> on a data stack that
  does not hold the operands (undefined in C++, a result of its own here).
\<close>

datatype error =
    OperandError ErrorParam
  | CodeError ErrorParam
  | AssertFailed
  | MissingOperand

text \<open>
  Modelled from the spec: \<open>VMachine\<close> and \<open>VMContext\<close> are not in these files. The spec
  has an execution context own a data stack of Items and a code stack of frames, each
  frame with the index of its next step. The context as the expression steps see it:
  the data stack, top first (\<open>topData()\<close> is its head), and the sequence id of the
  current code frame (\<open>ctx->currentCode().m_seqId\<close> of codeframe.h, an \<open>int32\<close> that
  only ever holds positions of a step sequence).
\<close>

record 'f vmcontext =
  dataStack :: "'f item list"
  m_seqId :: nat

type_synonym 'f result = "error + 'f vmcontext"

section \<open>Expression trees and precompilation (expression.cpp)\<close>

text \<open>
  The node classes of expression.cpp and exprcompare.cpp, by arity. A \<open>Leaf\<close> is a
  node of a class without children (values, symbols: their classes are not in these
  files), numbered to tell one from another; it inherits \<open>Expression::precompile\<close>.
\<close>

datatype unop =
    ExprNot | ExprNeg | ExprPreInc | ExprPostInc | ExprPreDec | ExprPostDec
  | ExprDot string | ExprOob | ExprDeoob | ExprXorOob | ExprIsOob

datatype binop =
    ExprAnd | ExprOr | ExprAssign | ExprEEQ | ExprIndex | ExprStarIndex
  | ExprLT | ExprLE | ExprGT | ExprGE | ExprEQ | ExprNE

datatype ternop = ExprIIF

datatype expr =
    Leaf nat
  | Unary unop expr
  | Binary binop expr expr
  | Ternary ternop expr expr expr

text \<open>
  A step of a sequence is a pointer to a node or to the gate object a node owns. The
  value below stands for the pointed object: the class of the node, and for the three
  jumping steps the field they read when applied (\<open>m_falseSeqId\<close> of an \<open>ExprIIF\<close>,
  \<open>m_shortCircuitSeqId\<close> of the gates of \<open>ExprAnd\<close> and \<open>ExprOr\<close>, \<open>m_endSeqId\<close> of the
  gate of \<open>ExprIIF\<close>).
\<close>

datatype pstep =
    StepLeaf nat
  | StepUnary unop
  | StepBinary binop
  | StepIIF nat
  | GateAnd nat
  | GateOr nat
  | GateIIF nat
  | GatePostInc
  | GatePostDec

text \<open>
  Modelled from the spec: the class \<open>PCode\<close> is not in these files. The spec has
  precompilation flatten a tree into a linear sequence of steps, so a \<open>PCode\<close> is the
  row of the steps pushed so far: \<open>pushStep\<close> adds a step at the end and \<open>size\<close> is the
  number of steps, the position the next step will get.
\<close>

type_synonym pcode = "pstep list"

definition pushStep :: "pstep \<Rightarrow> pcode \<Rightarrow> pcode" where
  "pushStep s pcode = pcode @ [s]"

text \<open>
  \<open>precompile\<close> pushes the address of a gate (or of the node) and assigns the jump
  field of that object afterwards, once the position is known. In a tree no other step
  points to the object, so the assignment is the rewriting of the one step pushed at
  \<open>pos\<close>; until then the field holds the value the step was pushed with.
\<close>

definition assignField :: "nat \<Rightarrow> pstep \<Rightarrow> pcode \<Rightarrow> pcode" where
  "assignField pos s pcode = pcode[pos := s]"

text \<open>
  The \<open>precompile\<close> methods. Each takes the \<open>precompile\<close> of its children as functions,
  as the virtual calls \<open>m_first->precompile( pcode )\<close> are, and the sequence so far.
\<close>

definition Expression_precompile :: "pstep \<Rightarrow> pcode \<Rightarrow> pcode" where
  "Expression_precompile this pcode = pushStep this pcode"

definition UnaryExpression_precompile ::
  "pstep \<Rightarrow> (pcode \<Rightarrow> pcode) \<Rightarrow> pcode \<Rightarrow> pcode" where
  "UnaryExpression_precompile this first pcode = pushStep this (first pcode)"

definition BinaryExpression_precompile ::
  "pstep \<Rightarrow> (pcode \<Rightarrow> pcode) \<Rightarrow> (pcode \<Rightarrow> pcode) \<Rightarrow> pcode \<Rightarrow> pcode" where
  "BinaryExpression_precompile this first second pcode =
     pushStep this (second (first pcode))"

definition TernaryExpression_precompile ::
  "pstep \<Rightarrow> (pcode \<Rightarrow> pcode) \<Rightarrow> (pcode \<Rightarrow> pcode) \<Rightarrow> (pcode \<Rightarrow> pcode) \<Rightarrow> pcode \<Rightarrow> pcode" where
  "TernaryExpression_precompile this first second third pcode =
     pushStep this (third (second (first pcode)))"

definition ExprAnd_precompile ::
  "(pcode \<Rightarrow> pcode) \<Rightarrow> (pcode \<Rightarrow> pcode) \<Rightarrow> pcode \<Rightarrow> pcode" where
  "ExprAnd_precompile first second pcode =
     (let pcode1 = first pcode;
          gate = length pcode1;
          pcode2 = pushStep (GateAnd 0) pcode1;
          pcode3 = second pcode2;
          pcode4 = pushStep (StepBinary ExprAnd) pcode3
      in assignField gate (GateAnd (length pcode4)) pcode4)"

definition ExprOr_precompile ::
  "(pcode \<Rightarrow> pcode) \<Rightarrow> (pcode \<Rightarrow> pcode) \<Rightarrow> pcode \<Rightarrow> pcode" where
  "ExprOr_precompile first second pcode =
     (let pcode1 = first pcode;
          gate = length pcode1;
          pcode2 = pushStep (GateOr 0) pcode1;
          pcode3 = second pcode2;
          pcode4 = pushStep (StepBinary ExprOr) pcode3
      in assignField gate (GateOr (length pcode4)) pcode4)"

definition ExprAssign_precompile ::
  "(pcode \<Rightarrow> pcode) \<Rightarrow> (pcode \<Rightarrow> pcode) \<Rightarrow> pcode \<Rightarrow> pcode" where
  "ExprAssign_precompile first second pcode = first (second pcode)"

definition ExprPostInc_precompile :: "(pcode \<Rightarrow> pcode) \<Rightarrow> pcode \<Rightarrow> pcode" where
  "ExprPostInc_precompile first pcode =
     pushStep GatePostInc (pushStep (StepUnary ExprPostInc) (first pcode))"

definition ExprPostDec_precompile :: "(pcode \<Rightarrow> pcode) \<Rightarrow> pcode \<Rightarrow> pcode" where
  "ExprPostDec_precompile first pcode =
     pushStep GatePostDec (pushStep (StepUnary ExprPostDec) (first pcode))"

definition ExprIIF_precompile ::
  "(pcode \<Rightarrow> pcode) \<Rightarrow> (pcode \<Rightarrow> pcode) \<Rightarrow> (pcode \<Rightarrow> pcode) \<Rightarrow> pcode \<Rightarrow> pcode" where
  "ExprIIF_precompile first second third pcode =
     (let pcode1 = first pcode;
          this = length pcode1;
          pcode2 = pushStep (StepIIF 0) pcode1;
          pcode3 = second pcode2;
          gate = length pcode3;
          pcode4 = pushStep (GateIIF 0) pcode3;
          pcode5 = assignField this (StepIIF (length pcode4)) pcode4;
          pcode6 = third pcode5
      in assignField gate (GateIIF (length pcode6)) pcode6)"

text \<open>The virtual call: each class answers with its own method or the inherited one.\<close>

fun precompile :: "expr \<Rightarrow> pcode \<Rightarrow> pcode" where
  "precompile (Leaf n) pcode = Expression_precompile (StepLeaf n) pcode"
| "precompile (Unary ExprPostInc a) pcode = ExprPostInc_precompile (precompile a) pcode"
| "precompile (Unary ExprPostDec a) pcode = ExprPostDec_precompile (precompile a) pcode"
| "precompile (Unary op a) pcode =
     UnaryExpression_precompile (StepUnary op) (precompile a) pcode"
| "precompile (Binary ExprAnd a b) pcode =
     ExprAnd_precompile (precompile a) (precompile b) pcode"
| "precompile (Binary ExprOr a b) pcode =
     ExprOr_precompile (precompile a) (precompile b) pcode"
| "precompile (Binary ExprAssign a b) pcode =
     ExprAssign_precompile (precompile a) (precompile b) pcode"
| "precompile (Binary op a b) pcode =
     BinaryExpression_precompile (StepBinary op) (precompile a) (precompile b) pcode"
| "precompile (Ternary ExprIIF a b c) pcode =
     ExprIIF_precompile (precompile a) (precompile b) (precompile c) pcode"

text \<open>
  Two views of a precompiled sequence used to state its properties. \<open>emitted e pcode\<close>
  are the steps \<open>precompile\<close> of \<open>e\<close> leaves behind those of \<open>pcode\<close>. \<open>postorder e\<close> is
  the depth-first walk of the tree that lists the children of a node, first to last,
  before the node itself (the step of a ternary conditional with its jump field not
  assigned).
\<close>

definition emitted :: "expr \<Rightarrow> pcode \<Rightarrow> pcode" where
  "emitted e pcode = drop (length pcode) (precompile e pcode)"

fun postorder :: "expr \<Rightarrow> pstep list" where
  "postorder (Leaf n) = [StepLeaf n]"
| "postorder (Unary op a) = postorder a @ [StepUnary op]"
| "postorder (Binary op a b) = postorder a @ postorder b @ [StepBinary op]"
| "postorder (Ternary ExprIIF a b c) = postorder a @ postorder b @ postorder c @ [StepIIF 0]"

text \<open>The classes that inherit \<open>precompile\<close> from the class of their arity.\<close>

definition inherits_unary :: "unop \<Rightarrow> bool" where
  "inherits_unary op \<longleftrightarrow> op \<noteq> ExprPostInc \<and> op \<noteq> ExprPostDec"

definition inherits_binary :: "binop \<Rightarrow> bool" where
  "inherits_binary op \<longleftrightarrow> op \<noteq> ExprAnd \<and> op \<noteq> ExprOr \<and> op \<noteq> ExprAssign"

fun inherited :: "expr \<Rightarrow> bool" where
  "inherited (Leaf n) = True"
| "inherited (Unary op a) = (inherits_unary op \<and> inherited a)"
| "inherited (Binary op a b) = (inherits_binary op \<and> inherited a \<and> inherited b)"
| "inherited (Ternary ExprIIF a b c) = False"

text \<open>
  The steps a node appends when the sequence already holds \<open>pos\<close> steps: the jump
  fields are positions of the whole sequence, so they move with \<open>pos\<close>.
\<close>

fun code :: "expr \<Rightarrow> nat \<Rightarrow> pcode" where
  "code (Leaf n) pos = [StepLeaf n]"
| "code (Unary ExprPostInc a) pos = code a pos @ [StepUnary ExprPostInc, GatePostInc]"
| "code (Unary ExprPostDec a) pos = code a pos @ [StepUnary ExprPostDec, GatePostDec]"
| "code (Unary op a) pos = code a pos @ [StepUnary op]"
| "code (Binary ExprAnd a b) pos =
     (let A = code a pos; B = code b (pos + length A + 1)
      in A @ GateAnd (pos + length A + 1 + length B + 1) # B @ [StepBinary ExprAnd])"
| "code (Binary ExprOr a b) pos =
     (let A = code a pos; B = code b (pos + length A + 1)
      in A @ GateOr (pos + length A + 1 + length B + 1) # B @ [StepBinary ExprOr])"
| "code (Binary ExprAssign a b) pos =
     (let B = code b pos in B @ code a (pos + length B))"
| "code (Binary op a b) pos =
     (let A = code a pos in A @ code b (pos + length A) @ [StepBinary op])"
| "code (Ternary ExprIIF a b c) pos =
     (let A = code a pos; B = code b (pos + length A + 1);
          C = code c (pos + length A + 1 + length B + 1)
      in A @ StepIIF (pos + length A + 1 + length B + 1) # B
           @ GateIIF (pos + length A + 1 + length B + 1 + length C) # C)"

section \<open>The steps of expression.cpp\<close>

text \<open>
  What the steps call and these files do not define is a field of the engine:
  \<^item> \<open>isTrue\<close>: \<open>Item::isTrue\<close>, the truth value of an item;
  \<^item> \<open>compare\<close>: \<open>Item::compare\<close>, and \<open>typeId\<close>: the number of the type tag;
  \<^item> the operations on \<open>numeric\<close> the code uses: negation, addition, subtraction,
    \<open>==\<close>, and the two implicit conversions between \<open>int64\<close> and \<open>numeric\<close>;
  \<^item> \<open>class_op\<close>: the handler of a class for one operator, called with the instance
    and the context (\<open>item.asDeepClass()->op_inc( vm, item.asDeepInst() )\<close>);
  \<^item> \<open>comparer\<close>: the \<open>comparer\<close> class of each comparison node;
  \<^item> \<open>other_apply\<close>: the \<open>apply\<close> of the steps whose effect is outside this model (leaves,
    accessors, out-of-band marks).
\<close>

datatype class_operator = op_neg | op_inc | op_dec | op_incpost | op_decpost | op_compare

text \<open>
  The template parameter \<open>__CPR\<close> of exprcompare.cpp is the \<open>comparer\<close> class of a
  comparison node (declared in exprcompare.h, which is not among these files). Its
  three static members as the two templates use them: \<open>pass\<close> is the test on integers
  (\<open>generic_simplify\<close> gives it \<open>int64\<close> pairs and pairs of type tags), \<open>passn\<close> the
  test on \<open>numeric\<close> (it is given the pairs with a \<open>numeric\<close> in them), \<open>cmpCheck\<close>
  the test on the outcome of a three-way comparison.
\<close>

record 'f comparer =
  pass :: "int64 \<Rightarrow> int64 \<Rightarrow> bool"
  passn :: "'f \<Rightarrow> 'f \<Rightarrow> bool"
  cmpCheck :: "int64 \<Rightarrow> bool"

record 'f engine =
  isTrue :: "'f item \<Rightarrow> bool"
  compare :: "'f item \<Rightarrow> 'f item \<Rightarrow> int64"
  typeId :: "'f item \<Rightarrow> int64"
  num_neg :: "'f \<Rightarrow> 'f"
  num_add :: "'f \<Rightarrow> 'f \<Rightarrow> 'f"
  num_sub :: "'f \<Rightarrow> 'f \<Rightarrow> 'f"
  num_eq :: "'f \<Rightarrow> 'f \<Rightarrow> bool"
  num_of_int :: "int64 \<Rightarrow> 'f"
  num_to_int :: "'f \<Rightarrow> int64"
  class_op :: "class_operator \<Rightarrow> nat \<Rightarrow> nat \<Rightarrow> 'f vmcontext \<Rightarrow> 'f result"
  comparer :: "binop \<Rightarrow> 'f comparer"
  other_apply :: "pstep \<Rightarrow> 'f vmcontext \<Rightarrow> 'f result"

text \<open>
  Modelled from the spec: \<open>VMContext::popData\<close> is not in these files; it removes the
  top of the data stack. The steps that pop have read the top before, so the stack is
  not empty where this is used.
\<close>

definition popData :: "'f vmcontext \<Rightarrow> 'f vmcontext" where
  "popData ctx = ctx\<lparr> dataStack := tl (dataStack ctx) \<rparr>"

text \<open>Writing through the reference \<open>Item& operand = ctx->topData()\<close>.\<close>

definition setTop :: "'f item \<Rightarrow> 'f vmcontext \<Rightarrow> 'f vmcontext" where
  "setTop v ctx = ctx\<lparr> dataStack := v # tl (dataStack ctx) \<rparr>"

definition ExprNot_apply :: "'f engine \<Rightarrow> 'f vmcontext \<Rightarrow> 'f result" where
  "ExprNot_apply eng ctx =
     (case dataStack ctx of
        [] \<Rightarrow> Inl MissingOperand
      | operand # _ \<Rightarrow> Inr (setTop (FLC_ITEM_BOOL (\<not> isTrue eng operand)) ctx))"

definition ExprAnd_apply :: "'f engine \<Rightarrow> 'f vmcontext \<Rightarrow> 'f result" where
  "ExprAnd_apply eng ctx =
     (case dataStack ctx of
        [] \<Rightarrow> Inl MissingOperand
      | operand # _ \<Rightarrow> Inr (setTop (FLC_ITEM_BOOL (isTrue eng operand)) ctx))"

definition ExprAnd_Gate_apply :: "'f engine \<Rightarrow> nat \<Rightarrow> 'f vmcontext \<Rightarrow> 'f result" where
  "ExprAnd_Gate_apply eng m_shortCircuitSeqId ctx =
     (case dataStack ctx of
        [] \<Rightarrow> Inl MissingOperand
      | operand # _ \<Rightarrow>
          if \<not> isTrue eng operand
          then Inr ((setTop (FLC_ITEM_BOOL False) ctx)\<lparr> m_seqId := m_shortCircuitSeqId \<rparr>)
          else Inr (popData ctx))"

definition ExprOr_apply :: "'f engine \<Rightarrow> 'f vmcontext \<Rightarrow> 'f result" where
  "ExprOr_apply eng ctx =
     (case dataStack ctx of
        [] \<Rightarrow> Inl MissingOperand
      | operand # _ \<Rightarrow> Inr (setTop (FLC_ITEM_BOOL (isTrue eng operand)) ctx))"

definition ExprOr_Gate_apply :: "'f engine \<Rightarrow> nat \<Rightarrow> 'f vmcontext \<Rightarrow> 'f result" where
  "ExprOr_Gate_apply eng m_shortCircuitSeqId ctx =
     (case dataStack ctx of
        [] \<Rightarrow> Inl MissingOperand
      | operand # _ \<Rightarrow>
          if isTrue eng operand
          then Inr ((setTop (FLC_ITEM_BOOL True) ctx)\<lparr> m_seqId := m_shortCircuitSeqId \<rparr>)
          else Inr (popData ctx))"

definition ExprNeg_apply :: "'f engine \<Rightarrow> 'f vmcontext \<Rightarrow> 'f result" where
  "ExprNeg_apply eng ctx =
     (case dataStack ctx of
        [] \<Rightarrow> Inl MissingOperand
      | FLC_ITEM_INT i # _ \<Rightarrow> Inr (setTop (FLC_ITEM_INT (- i)) ctx)
      | FLC_ITEM_NUM x # _ \<Rightarrow> Inr (setTop (FLC_ITEM_NUM (num_neg eng x)) ctx)
      | FLC_ITEM_DEEP cls inst # _ \<Rightarrow> class_op eng op_neg cls inst ctx
      | FLC_ITEM_USER cls inst # _ \<Rightarrow> class_op eng op_neg cls inst ctx
      | _ \<Rightarrow> Inl (OperandError (extra ''neg'' (ErrorParam e_invalid_op 439 []))))"

definition ExprPreInc_apply :: "'f engine \<Rightarrow> 'f vmcontext \<Rightarrow> 'f result" where
  "ExprPreInc_apply eng ctx =
     (case dataStack ctx of
        [] \<Rightarrow> Inl MissingOperand
      | FLC_ITEM_INT i # _ \<Rightarrow> Inr (setTop (FLC_ITEM_INT (i + 1)) ctx)
      | FLC_ITEM_NUM x # _ \<Rightarrow>
          Inr (setTop (FLC_ITEM_NUM (num_add eng x (num_of_int eng 1))) ctx)
      | FLC_ITEM_DEEP cls inst # _ \<Rightarrow> class_op eng op_inc cls inst ctx
      | FLC_ITEM_USER cls inst # _ \<Rightarrow> class_op eng op_inc cls inst ctx
      | _ \<Rightarrow> Inl (OperandError (extra ''preinc'' (ErrorParam e_invalid_op 487 []))))"

text \<open>The body of \<open>ExprPostInc::apply_\<close> binds the top item and does nothing with it.\<close>

definition ExprPostInc_apply :: "'f engine \<Rightarrow> 'f vmcontext \<Rightarrow> 'f result" where
  "ExprPostInc_apply eng ctx = Inr ctx"

definition ExprPostInc_Gate_apply :: "'f engine \<Rightarrow> 'f vmcontext \<Rightarrow> 'f result" where
  "ExprPostInc_Gate_apply eng ctx =
     (case dataStack ctx of
        [] \<Rightarrow> Inl MissingOperand
      | FLC_ITEM_INT i # _ \<Rightarrow> Inr (setTop (FLC_ITEM_INT (i + 1)) ctx)
      | FLC_ITEM_NUM x # _ \<Rightarrow>
          Inr (setTop (FLC_ITEM_NUM (num_add eng x (num_of_int eng 1))) ctx)
      | FLC_ITEM_DEEP cls inst # _ \<Rightarrow> class_op eng op_incpost cls inst ctx
      | FLC_ITEM_USER cls inst # _ \<Rightarrow> class_op eng op_incpost cls inst ctx
      | _ \<Rightarrow> Inl (OperandError (extra ''postinc'' (ErrorParam e_invalid_op 567 []))))"

definition ExprPreDec_apply :: "'f engine \<Rightarrow> 'f vmcontext \<Rightarrow> 'f result" where
  "ExprPreDec_apply eng ctx =
     (case dataStack ctx of
        [] \<Rightarrow> Inl MissingOperand
      | FLC_ITEM_INT i # _ \<Rightarrow> Inr (setTop (FLC_ITEM_INT (i - 1)) ctx)
      | FLC_ITEM_NUM x # _ \<Rightarrow>
          Inr (setTop (FLC_ITEM_NUM (num_sub eng x (num_of_int eng 1))) ctx)
      | FLC_ITEM_DEEP cls inst # _ \<Rightarrow> class_op eng op_dec cls inst ctx
      | FLC_ITEM_USER cls inst # _ \<Rightarrow> class_op eng op_dec cls inst ctx
      | _ \<Rightarrow> Inl (OperandError (extra ''predec'' (ErrorParam e_invalid_op 610 []))))"

definition ExprPostDec_apply :: "'f engine \<Rightarrow> 'f vmcontext \<Rightarrow> 'f result" where
  "ExprPostDec_apply eng ctx = Inr ctx"

definition ExprPostDec_Gate_apply :: "'f engine \<Rightarrow> 'f vmcontext \<Rightarrow> 'f result" where
  "ExprPostDec_Gate_apply eng ctx =
     (case dataStack ctx of
        [] \<Rightarrow> Inl MissingOperand
      | FLC_ITEM_INT i # _ \<Rightarrow> Inr (setTop (FLC_ITEM_INT (i - 1)) ctx)
      | FLC_ITEM_NUM x # _ \<Rightarrow>
          Inr (setTop (FLC_ITEM_NUM (num_sub eng x (num_of_int eng 1))) ctx)
      | FLC_ITEM_DEEP cls inst # _ \<Rightarrow> class_op eng op_decpost cls inst ctx
      | FLC_ITEM_USER cls inst # _ \<Rightarrow> class_op eng op_decpost cls inst ctx
      | _ \<Rightarrow> Inl (OperandError (extra ''postdec'' (ErrorParam e_invalid_op 690 []))))"

text \<open>
  Modelled from the spec: \<open>VMachine::operands\<close> is not in these files. The operands of
  a binary step are pushed first to last, so \<open>vm->operands( op1, op2 )\<close> hands out the
  two topmost items: \<open>op2\<close> is the top and \<open>op1\<close> the one below it, the slot that
  receives the result and stays after \<open>popData()\<close>. The switch on
  \<open>op1->type() << 8 | op2->type()\<close> is a case on the pair of tags.
\<close>

definition ExprEEQ_result :: "'f engine \<Rightarrow> 'f item \<Rightarrow> 'f item \<Rightarrow> bool" where
  "ExprEEQ_result eng op1 op2 =
     (case (op1, op2) of
        (FLC_ITEM_NIL, FLC_ITEM_NIL) \<Rightarrow> True
      | (FLC_ITEM_BOOL a, FLC_ITEM_BOOL b) \<Rightarrow> a = b
      | (FLC_ITEM_INT a, FLC_ITEM_INT b) \<Rightarrow> a = b
      | (FLC_ITEM_NUM a, FLC_ITEM_NUM b) \<Rightarrow> num_eq eng a b
      | (FLC_ITEM_DEEP c1 inst1, FLC_ITEM_DEEP c2 inst2) \<Rightarrow> inst1 = inst2
      | (FLC_ITEM_USER c1 inst1, FLC_ITEM_USER c2 inst2) \<Rightarrow> inst1 = inst2
      | _ \<Rightarrow> False)"

definition ExprEEQ_apply :: "'f engine \<Rightarrow> 'f vmcontext \<Rightarrow> 'f result" where
  "ExprEEQ_apply eng ctx =
     (case dataStack ctx of
        op2 # op1 # rest \<Rightarrow>
          Inr (ctx\<lparr> dataStack := FLC_ITEM_BOOL (ExprEEQ_result eng op1 op2) # rest \<rparr>)
      | _ \<Rightarrow> Inl MissingOperand)"

definition ExprIIF_apply :: "'f engine \<Rightarrow> nat \<Rightarrow> 'f vmcontext \<Rightarrow> 'f result" where
  "ExprIIF_apply eng m_falseSeqId ctx =
     (case dataStack ctx of
        [] \<Rightarrow> Inl MissingOperand
      | cond # _ \<Rightarrow>
          if \<not> isTrue eng cond
          then Inr ((popData ctx)\<lparr> m_seqId := m_falseSeqId \<rparr>)
          else Inr (popData ctx))"

definition ExprIIF_Gate_apply :: "nat \<Rightarrow> 'f vmcontext \<Rightarrow> 'f result" where
  "ExprIIF_Gate_apply m_endSeqId ctx = Inr (ctx\<lparr> m_seqId := m_endSeqId \<rparr>)"

section \<open>Comparisons (exprcompare.cpp)\<close>

text \<open>
  \<open>generic_simplify\<close> receives what \<open>simplify\<close> of the two children answered:
  \<open>Some d\<close> when it returned true and filled the item \<open>d\<close>. An \<open>int64\<close> handed to
  \<open>passn\<close> is converted to \<open>numeric\<close> at the call.
\<close>

definition generic_simplify ::
  "'f comparer \<Rightarrow> 'f engine \<Rightarrow> 'f item option \<Rightarrow> 'f item option \<Rightarrow> 'f item option" where
  "generic_simplify cpr eng first second =
     (case first of
        None \<Rightarrow> None
      | Some d1 \<Rightarrow>
         (case second of
            None \<Rightarrow> None
          | Some d2 \<Rightarrow>
              Some (FLC_ITEM_BOOL
                (case (d1, d2) of
                   (FLC_ITEM_INT a, FLC_ITEM_INT b) \<Rightarrow> pass cpr a b
                 | (FLC_ITEM_INT a, FLC_ITEM_NUM b) \<Rightarrow> passn cpr (num_of_int eng a) b
                 | (FLC_ITEM_NUM a, FLC_ITEM_INT b) \<Rightarrow> passn cpr a (num_of_int eng b)
                 | (FLC_ITEM_NUM a, FLC_ITEM_NUM b) \<Rightarrow> passn cpr a b
                 | _ \<Rightarrow> pass cpr (typeId eng d1) (typeId eng d2)))))"

text \<open>
  After \<open>op_compare\<close> of a class the result is read from the top of the stack, which
  \<open>fassert\<close> wants to be an integer. For a user instance the code hands
  \<open>op1->asInteger() < 0\<close>, a \<open>bool\<close>, to \<open>cmpCheck\<close>.
\<close>

definition compare_result ::
  "(int64 \<Rightarrow> bool) \<Rightarrow> 'f result \<Rightarrow> 'f result" where
  "compare_result check r =
     (case r of
        Inl e \<Rightarrow> Inl e
      | Inr ctx \<Rightarrow>
         (case dataStack ctx of
            [] \<Rightarrow> Inl MissingOperand
          | FLC_ITEM_INT v # _ \<Rightarrow> Inr (setTop (FLC_ITEM_BOOL (check v)) ctx)
          | _ \<Rightarrow> Inl AssertFailed))"

text \<open>
  \<open>generic_apply_\<close> (here \<open>generic_apply\<close>) calls \<open>pass\<close> in all four scalar cases. A \<open>numeric\<close> handed to
  \<open>pass\<close> is converted to \<open>int64\<close> at the call.
\<close>

definition generic_apply :: "'f comparer \<Rightarrow> 'f engine \<Rightarrow> 'f vmcontext \<Rightarrow> 'f result" where
  "generic_apply cpr eng ctx =
     (case dataStack ctx of
        op2 # op1 # rest \<Rightarrow>
          (case (op1, op2) of
             (FLC_ITEM_INT a, FLC_ITEM_INT b) \<Rightarrow>
               Inr (ctx\<lparr> dataStack := FLC_ITEM_BOOL (pass cpr a b) # rest \<rparr>)
           | (FLC_ITEM_INT a, FLC_ITEM_NUM b) \<Rightarrow>
               Inr (ctx\<lparr> dataStack := FLC_ITEM_BOOL (pass cpr a (num_to_int eng b)) # rest \<rparr>)
           | (FLC_ITEM_NUM a, FLC_ITEM_INT b) \<Rightarrow>
               Inr (ctx\<lparr> dataStack := FLC_ITEM_BOOL (pass cpr (num_to_int eng a) b) # rest \<rparr>)
           | (FLC_ITEM_NUM a, FLC_ITEM_NUM b) \<Rightarrow>
               Inr (ctx\<lparr> dataStack :=
                      FLC_ITEM_BOOL (pass cpr (num_to_int eng a) (num_to_int eng b)) # rest \<rparr>)
           | (FLC_ITEM_DEEP cls inst, _) \<Rightarrow>
               compare_result (cmpCheck cpr) (class_op eng op_compare cls inst ctx)
           | (FLC_ITEM_USER cls inst, _) \<Rightarrow>
               compare_result (\<lambda>v. cmpCheck cpr (if v <s 0 then 1 else 0))
                 (class_op eng op_compare cls inst ctx)
           | _ \<Rightarrow>
               Inr (ctx\<lparr> dataStack :=
                      FLC_ITEM_BOOL (cmpCheck cpr (compare eng op1 op2)) # rest \<rparr>))
      | _ \<Rightarrow> Inl MissingOperand)"

section \<open>Applying a step and running a sequence\<close>

text \<open>\<open>pstep->apply( pstep, vm )\<close>: the function each class installs in its constructor.\<close>

fun pstep_apply :: "'f engine \<Rightarrow> pstep \<Rightarrow> 'f vmcontext \<Rightarrow> 'f result" where
  "pstep_apply eng (StepUnary ExprNot) ctx = ExprNot_apply eng ctx"
| "pstep_apply eng (StepUnary ExprNeg) ctx = ExprNeg_apply eng ctx"
| "pstep_apply eng (StepUnary ExprPreInc) ctx = ExprPreInc_apply eng ctx"
| "pstep_apply eng (StepUnary ExprPostInc) ctx = ExprPostInc_apply eng ctx"
| "pstep_apply eng (StepUnary ExprPreDec) ctx = ExprPreDec_apply eng ctx"
| "pstep_apply eng (StepUnary ExprPostDec) ctx = ExprPostDec_apply eng ctx"
| "pstep_apply eng GatePostInc ctx = ExprPostInc_Gate_apply eng ctx"
| "pstep_apply eng GatePostDec ctx = ExprPostDec_Gate_apply eng ctx"
| "pstep_apply eng (StepBinary ExprAnd) ctx = ExprAnd_apply eng ctx"
| "pstep_apply eng (GateAnd t) ctx = ExprAnd_Gate_apply eng t ctx"
| "pstep_apply eng (StepBinary ExprOr) ctx = ExprOr_apply eng ctx"
| "pstep_apply eng (GateOr t) ctx = ExprOr_Gate_apply eng t ctx"
| "pstep_apply eng (StepBinary ExprEEQ) ctx = ExprEEQ_apply eng ctx"
| "pstep_apply eng (StepBinary ExprLT) ctx = generic_apply (comparer eng ExprLT) eng ctx"
| "pstep_apply eng (StepBinary ExprLE) ctx = generic_apply (comparer eng ExprLE) eng ctx"
| "pstep_apply eng (StepBinary ExprGT) ctx = generic_apply (comparer eng ExprGT) eng ctx"
| "pstep_apply eng (StepBinary ExprGE) ctx = generic_apply (comparer eng ExprGE) eng ctx"
| "pstep_apply eng (StepBinary ExprEQ) ctx = generic_apply (comparer eng ExprEQ) eng ctx"
| "pstep_apply eng (StepBinary ExprNE) ctx = generic_apply (comparer eng ExprNE) eng ctx"
| "pstep_apply eng (StepIIF t) ctx = ExprIIF_apply eng t ctx"
| "pstep_apply eng (GateIIF t) ctx = ExprIIF_Gate_apply t ctx"
| "pstep_apply eng s ctx = other_apply eng s ctx"

text \<open>
  Modelled from the spec: the loop that drives a code frame over its step sequence
  (\<open>PCode::apply_\<close>) is not in these files. The spec has a frame hold the index of the
  next step of a flattened sequence, go from \<open>Running(seqId=k)\<close> to
  \<open>Running(seqId=k+1)\<close>, let a gate jump forward to a precomputed sequence id, and
  complete at the end of the sequence; a raised condition ends the frame. So: while
  \<open>m_seqId\<close> is a position of the sequence, take the step there, advance \<open>m_seqId\<close> by
  one and apply the step. The answer lists the positions of the steps applied, in
  order, with the final context or the error; \<open>None\<close> says that the fuel ran out before
  the sequence completed.
\<close>

fun PCode_apply ::
  "'f engine \<Rightarrow> pcode \<Rightarrow> nat \<Rightarrow> 'f vmcontext \<Rightarrow> (nat list \<times> 'f result) option" where
  "PCode_apply eng pcode 0 ctx =
     (if m_seqId ctx < length pcode then None else Some ([], Inr ctx))"
| "PCode_apply eng pcode (Suc fuel) ctx =
     (if m_seqId ctx < length pcode
      then (case pstep_apply eng (pcode ! m_seqId ctx) (ctx\<lparr> m_seqId := Suc (m_seqId ctx) \<rparr>) of
              Inl e \<Rightarrow> Some ([m_seqId ctx], Inl e)
            | Inr ctx' \<Rightarrow>
                (case PCode_apply eng pcode fuel ctx' of
                   None \<Rightarrow> None
                 | Some (trace, r) \<Rightarrow> Some (m_seqId ctx # trace, r)))
      else Some ([], Inr ctx))"

text \<open>
  Two notions to state that a run does not go back. A step at position \<open>k\<close> jumps
  forward when the jump field it reads lies beyond \<open>k\<close>; \<open>forward_from k steps\<close> says
  so of every step of a row that starts at position \<open>k\<close>. An engine keeps the frame
  when its class handlers and its other steps leave the sequence id of the current
  frame alone.
\<close>

definition jumps_forward :: "nat \<Rightarrow> pstep \<Rightarrow> bool" where
  "jumps_forward k s =
     (case s of
        StepIIF t \<Rightarrow> k < t
      | GateAnd t \<Rightarrow> k < t
      | GateOr t \<Rightarrow> k < t
      | GateIIF t \<Rightarrow> k < t
      | _ \<Rightarrow> True)"

fun forward_from :: "nat \<Rightarrow> pcode \<Rightarrow> bool" where
  "forward_from k [] = True"
| "forward_from k (s # steps) = (jumps_forward k s \<and> forward_from (Suc k) steps)"

definition keeps_frame :: "'f engine \<Rightarrow> bool" where
  "keeps_frame eng \<longleftrightarrow>
     (\<forall>s ctx ctx'. other_apply eng s ctx = Inr ctx' \<longrightarrow> m_seqId ctx' = m_seqId ctx)
     \<and> (\<forall>op cls inst ctx ctx'.
           class_op eng op cls inst ctx = Inr ctx' \<longrightarrow> m_seqId ctx' = m_seqId ctx)"

text \<open>
  \<open>Item::type()\<close> up to the numbers of itemid.h, which are not among these files: the
  position of the tag in the list of tags above. Only equality of tags is read off it.
\<close>

fun type_tag :: "'f item \<Rightarrow> nat" where
  "type_tag FLC_ITEM_NIL = 0"
| "type_tag (FLC_ITEM_BOOL _) = 1"
| "type_tag (FLC_ITEM_INT _) = 2"
| "type_tag (FLC_ITEM_NUM _) = 3"
| "type_tag (FLC_ITEM_FUNC _) = 4"
| "type_tag (FLC_ITEM_METHOD _ _) = 5"
| "type_tag (FLC_ITEM_BASEMETHOD _ _) = 6"
| "type_tag (FLC_ITEM_DEEP _ _) = 7"
| "type_tag (FLC_ITEM_USER _ _) = 8"

section \<open>An engine for examples\<close>

text \<open>
  To run the definitions above on concrete inputs the parameters need values. In this
  engine a \<open>numeric\<close> is a rational number (the doubles of the examples are rationals
  and the operations on them exact), \<open>numeric\<close> to \<open>int64\<close> truncates towards zero, a
  leaf numbered \<open>n\<close> pushes the integer \<open>n\<close>, nil, false and zero are the false items,
  and a comparer tests with the operator of its node. Class handlers and the other
  steps leave the context as it is.
\<close>

definition example_isTrue :: "rat item \<Rightarrow> bool" where
  "example_isTrue v =
     (case v of
        FLC_ITEM_NIL \<Rightarrow> False
      | FLC_ITEM_BOOL b \<Rightarrow> b
      | FLC_ITEM_INT i \<Rightarrow> i \<noteq> 0
      | FLC_ITEM_NUM x \<Rightarrow> x \<noteq> 0
      | _ \<Rightarrow> True)"

definition example_comparer :: "binop \<Rightarrow> rat comparer" where
  "example_comparer op =
     (case op of
        ExprLE \<Rightarrow> \<lparr> pass = (\<lambda>a b. a \<le>s b), passn = (\<lambda>x y. x \<le> y), cmpCheck = (\<lambda>v. v \<le>s 0) \<rparr>
      | ExprGT \<Rightarrow> \<lparr> pass = (\<lambda>a b. b <s a), passn = (\<lambda>x y. y < x), cmpCheck = (\<lambda>v. 0 <s v) \<rparr>
      | ExprGE \<Rightarrow> \<lparr> pass = (\<lambda>a b. b \<le>s a), passn = (\<lambda>x y. y \<le> x), cmpCheck = (\<lambda>v. 0 \<le>s v) \<rparr>
      | ExprEQ \<Rightarrow> \<lparr> pass = (\<lambda>a b. a = b), passn = (\<lambda>x y. x = y), cmpCheck = (\<lambda>v. v = 0) \<rparr>
      | ExprNE \<Rightarrow> \<lparr> pass = (\<lambda>a b. a \<noteq> b), passn = (\<lambda>x y. x \<noteq> y), cmpCheck = (\<lambda>v. v \<noteq> 0) \<rparr>
      | _ \<Rightarrow> \<lparr> pass = (\<lambda>a b. a <s b), passn = (\<lambda>x y. x < y), cmpCheck = (\<lambda>v. v <s 0) \<rparr>)"

definition example_other :: "pstep \<Rightarrow> rat vmcontext \<Rightarrow> rat result" where
  "example_other s ctx =
     (case s of
        StepLeaf n \<Rightarrow> Inr (ctx\<lparr> dataStack := FLC_ITEM_INT (of_nat n) # dataStack ctx \<rparr>)
      | _ \<Rightarrow> Inr ctx)"

definition example_engine :: "rat engine" where
  "example_engine =
     \<lparr> isTrue = example_isTrue,
       compare = (\<lambda>a b. 0),
       typeId = (\<lambda>v. of_nat (type_tag v)),
       num_neg = (\<lambda>x. - x),
       num_add = (\<lambda>x y. x + y),
       num_sub = (\<lambda>x y. x - y),
       num_eq = (\<lambda>x y. x = y),
       num_of_int = (\<lambda>i. of_int (sint i)),
       num_to_int = (\<lambda>x. of_int (if 0 \<le> x then \<lfloor>x\<rfloor> else \<lceil>x\<rceil>)),
       class_op = (\<lambda>op cls inst ctx. Inr ctx),
       comparer = example_comparer,
       other_apply = example_other \<rparr>"

section \<open>Serialization of expression nodes (expression.cpp)\<close>

text \<open>
  What \<open>DataWriter\<close> has written and \<open>DataReader\<close> will read is a row of data, oldest
  first: a byte, or a source reference (the class \<open>SourceRef\<close> is not in these files;
  it is written and read as one piece). The children of a node are of any type \<open>'e\<close>:
  \<open>m_first->serialize( s )\<close> is a virtual call, a parameter here, and so is
  \<open>ExprFactory::deserialize\<close>, which answers with the node it has read and the rest of
  the data, or fails.
\<close>

datatype datum = D_byte nat | D_sourceRef nat | D_other nat

type_synonym stream = "datum list"

record Expression =
  m_operator :: nat
  m_sourceRef :: nat

record 'e BinaryExpression = Expression +
  b_first :: 'e
  b_second :: 'e

record 'e TernaryExpression = Expression +
  m_first :: 'e
  m_second :: 'e
  m_third :: 'e

definition Expression_serialize :: "'a Expression_scheme \<Rightarrow> stream \<Rightarrow> stream" where
  "Expression_serialize this s = s @ [D_byte (m_operator this), D_sourceRef (m_sourceRef this)]"

definition Expression_deserialize ::
  "'a Expression_scheme \<Rightarrow> stream \<Rightarrow> ('a Expression_scheme \<times> stream) option" where
  "Expression_deserialize this s =
     (case s of
        D_sourceRef r # rest \<Rightarrow> Some (this\<lparr> m_sourceRef := r \<rparr>, rest)
      | _ \<Rightarrow> None)"

definition BinaryExpression_serialize ::
  "('e \<Rightarrow> stream \<Rightarrow> stream) \<Rightarrow> 'e BinaryExpression \<Rightarrow> stream \<Rightarrow> stream" where
  "BinaryExpression_serialize serialize this s =
     serialize (b_second this) (serialize (b_first this) (Expression_serialize this s))"

definition BinaryExpression_deserialize ::
  "(stream \<Rightarrow> ('e \<times> stream) option) \<Rightarrow> 'e BinaryExpression \<Rightarrow> stream
     \<Rightarrow> ('e BinaryExpression \<times> stream) option" where
  "BinaryExpression_deserialize factory this s =
     (case Expression_deserialize this s of
        None \<Rightarrow> None
      | Some (this1, s1) \<Rightarrow>
         (case factory s1 of
            None \<Rightarrow> None
          | Some (first, s2) \<Rightarrow>
             (case factory s2 of
                None \<Rightarrow> None
              | Some (second, s3) \<Rightarrow>
                  Some (this1\<lparr> b_first := first, b_second := second \<rparr>, s3))))"

definition TernaryExpression_serialize ::
  "('e \<Rightarrow> stream \<Rightarrow> stream) \<Rightarrow> 'e TernaryExpression \<Rightarrow> stream \<Rightarrow> stream" where
  "TernaryExpression_serialize serialize this s =
     serialize (m_first this)
       (serialize (m_second this)
         (serialize (m_third this) (Expression_serialize this s)))"

definition TernaryExpression_deserialize ::
  "(stream \<Rightarrow> ('e \<times> stream) option) \<Rightarrow> 'e TernaryExpression \<Rightarrow> stream
     \<Rightarrow> ('e TernaryExpression \<times> stream) option" where
  "TernaryExpression_deserialize factory this s =
     (case Expression_deserialize this s of
        None \<Rightarrow> None
      | Some (this1, s1) \<Rightarrow>
         (case factory s1 of
            None \<Rightarrow> None
          | Some (first, s2) \<Rightarrow>
             (case factory s2 of
                None \<Rightarrow> None
              | Some (second, s3) \<Rightarrow>
                 (case factory s3 of
                    None \<Rightarrow> None
                  | Some (third, s4) \<Rightarrow>
                      Some (this1\<lparr> m_first := first, m_second := second, m_third := third \<rparr>,
                            s4)))))"

text \<open>
  The reader of a ternary node: \<open>Expression::serialize\<close> writes the operator as a byte
  that \<open>Expression::deserialize\<close> does not read, so whoever creates the node has read it.
  The node is created with that operator and whatever children \<open>blank\<close> gives it, and
  reads the rest itself.
\<close>

definition read_ternary ::
  "(stream \<Rightarrow> ('e \<times> stream) option) \<Rightarrow> 'e \<Rightarrow> stream
     \<Rightarrow> ('e TernaryExpression \<times> stream) option" where
  "read_ternary factory blank s =
     (case s of
        D_byte op # rest \<Rightarrow>
          TernaryExpression_deserialize factory
            \<lparr> m_operator = op, m_sourceRef = 0,
              m_first = blank, m_second = blank, m_third = blank \<rparr> rest
      | _ \<Rightarrow> None)"

text \<open>For examples: a child that is written as one piece of data and read back from it.\<close>

definition example_serialize :: "nat \<Rightarrow> stream \<Rightarrow> stream" where
  "example_serialize child s = s @ [D_other child]"

definition example_factory :: "stream \<Rightarrow> (nat \<times> stream) option" where
  "example_factory s = (case s of D_other child # rest \<Rightarrow> Some (child, rest) | _ \<Rightarrow> None)"

section \<open>Pool (engine/pool.cpp)\<close>

text \<open>
  A \<open>Poolable\<close> is identified by its address, the null pointer being 0. The pool holds
  the head of the free list and its two \<open>uint32\<close> counters; \<open>m_next\<close> gives the
  \<open>m_next\<close> field of the object at each address, so that \<open>data->m_next = m_head\<close> is an
  update of that function at \<open>data\<close>. The mutex is taken and given back inside each
  method and has no effect on a single caller; it is left out. \<open>release\<close> and \<open>clear\<close>
  answer the pool together with the objects they handed to \<open>delete\<close>, \<open>get\<close> the pool
  and the pointer it returns.
\<close>

type_synonym poolable = nat

record pool =
  m_head :: poolable
  m_size :: "32 word"
  m_maxSize :: "32 word"
  m_next :: "poolable \<Rightarrow> poolable"

text \<open>The constructor, for the \<open>m_next\<close> fields the objects have at that moment.\<close>

definition Pool :: "(poolable \<Rightarrow> poolable) \<Rightarrow> 32 word \<Rightarrow> pool" where
  "Pool nxt maxSize = \<lparr> m_head = 0, m_size = 0, m_maxSize = maxSize, m_next = nxt \<rparr>"

definition size_pool :: "pool \<Rightarrow> 32 word" where
  "size_pool p = m_size p"

text \<open>
  The loop of \<open>clear\<close> runs until the head is null. On a free list that runs into
  itself it has no end: then the answer is \<open>None\<close>.
\<close>

partial_function (option) clear_loop :: "pool \<Rightarrow> poolable list \<Rightarrow> (pool \<times> poolable list) option" where
  "clear_loop p deleted =
     (if m_head p \<noteq> 0
      then clear_loop (p\<lparr> m_head := m_next p (m_head p) \<rparr>) (deleted @ [m_head p])
      else Some (p, deleted))"

definition clear :: "pool \<Rightarrow> (pool \<times> poolable list) option" where
  "clear p =
     (case clear_loop p [] of
        None \<Rightarrow> None
      | Some (q, deleted) \<Rightarrow> Some (q\<lparr> m_size := 0 \<rparr>, deleted))"

definition get :: "pool \<Rightarrow> pool \<times> poolable" where
  "get p =
     (if m_head p \<noteq> 0
      then (p\<lparr> m_head := m_next p (m_head p), m_size := m_size p - 1 \<rparr>, m_head p)
      else (p, 0))"

definition release :: "pool \<Rightarrow> poolable \<Rightarrow> pool \<times> poolable list" where
  "release p data =
     (if m_size p < m_maxSize p
      then (p\<lparr> m_size := m_size p + 1,
               m_next := (m_next p)(data := m_head p),
               m_head := data \<rparr>, [])
      else (p, [data]))"

text \<open>Releasing a row of objects one after the other, collecting what was deleted.\<close>

fun release_all :: "pool \<Rightarrow> poolable list \<Rightarrow> pool \<times> poolable list" where
  "release_all p [] = (p, [])"
| "release_all p (x # xs) =
     (case release p x of (p', d) \<Rightarrow>
        (case release_all p' xs of (p'', ds) \<Rightarrow> (p'', d @ ds)))"

text \<open>
  The objects of the free list: those met from the head on, following \<open>m_next\<close>, as
  many as \<open>m_size\<close> counts or until null. \<open>free_list next head xs\<close> says that the list
  from \<open>head\<close> is exactly \<open>xs\<close> and ends in null.
\<close>

fun chain :: "(poolable \<Rightarrow> poolable) \<Rightarrow> poolable \<Rightarrow> nat \<Rightarrow> poolable list" where
  "chain nxt h 0 = []"
| "chain nxt h (Suc n) = (if h = 0 then [] else h # chain nxt (nxt h) n)"

definition pooled :: "pool \<Rightarrow> poolable list" where
  "pooled p = chain (m_next p) (m_head p) (unat (m_size p))"

fun free_list :: "(poolable \<Rightarrow> poolable) \<Rightarrow> poolable \<Rightarrow> poolable list \<Rightarrow> bool" where
  "free_list nxt h [] = (h = 0)"
| "free_list nxt h (x # xs) = (h = x \<and> x \<noteq> 0 \<and> free_list nxt (nxt x) xs)"

definition pool_inv :: "pool \<Rightarrow> bool" where
  "pool_inv p \<longleftrightarrow>
     free_list (m_next p) (m_head p) (pooled p) \<and> distinct (pooled p)
     \<and> length (pooled p) = unat (m_size p) \<and> m_size p \<le> m_maxSize p"

text \<open>
  A client of the pool is a sequence of calls of its three mutating methods. It uses
  the pool properly when every object it releases is an object (not null) that is not
  in the pool at that moment.
\<close>

datatype pool_op = OpGet | OpRelease poolable | OpClear

fun pool_call :: "pool \<Rightarrow> pool_op \<Rightarrow> pool option" where
  "pool_call p OpGet = Some (fst (get p))"
| "pool_call p (OpRelease x) = Some (fst (release p x))"
| "pool_call p OpClear = map_option fst (clear p)"

fun pool_calls :: "pool \<Rightarrow> pool_op list \<Rightarrow> pool option" where
  "pool_calls p [] = Some p"
| "pool_calls p (c # cs) =
     (case pool_call p c of None \<Rightarrow> None | Some q \<Rightarrow> pool_calls q cs)"

fun releasable :: "pool \<Rightarrow> pool_op \<Rightarrow> bool" where
  "releasable p (OpRelease x) = (x \<noteq> 0 \<and> x \<notin> set (pooled p))"
| "releasable p c = True"

fun proper :: "pool \<Rightarrow> pool_op list \<Rightarrow> bool" where
  "proper p [] = True"
| "proper p (c # cs) =
     (releasable p c \<and> (case pool_call p c of None \<Rightarrow> False | Some q \<Rightarrow> proper q cs))"

section \<open>The global statement (psteps/stmtglobal.cpp)\<close>

text \<open>
  The context as \<open>StmtGlobal::apply_\<close> uses it. A variable slot (an \<open>Item*\<close>) is an
  address. \<open>codeStack\<close> holds the steps being applied, top first; \<open>m_function\<close> is the
  function of the current call frame, with its name and the name of its module if it
  has one; \<open>locals\<close> and \<open>globals\<close> say where the variables of the local frame and of
  the global scope live; \<open>symbols\<close> are the bindings of symbols to slots that
  \<open>defineSymbol\<close> makes; \<open>raised\<close> is the error handed to \<open>raiseError\<close>, if any.
\<close>

record Function =
  function_name :: string
  function_module :: "string option"

record vmcontext_stmt =
  codeStack :: "nat list"
  m_function :: Function
  locals :: "string \<rightharpoonup> nat"
  globals :: "string \<rightharpoonup> nat"
  symbols :: "string \<rightharpoonup> nat"
  raised :: "error option"

definition popCode :: "vmcontext_stmt \<Rightarrow> vmcontext_stmt" where
  "popCode ctx = ctx\<lparr> codeStack := tl (codeStack ctx) \<rparr>"

text \<open>
  Modelled from the spec: \<open>VMContext::resolveVariable\<close> is not in these files. The spec
  has a variable declared \<open>global\<close> re-bound to the slot of the defining module rather
  than to the local frame, and the call \<open>resolveVariable( name, true, false )\<close> is
  commented as resolving the symbol global whatever it is locally. So with the first
  flag set the name is looked up among the globals only; with the second set among the
  locals only; with neither, locals first.
\<close>

definition resolveVariable :: "vmcontext_stmt \<Rightarrow> string \<Rightarrow> bool \<Rightarrow> bool \<Rightarrow> nat option" where
  "resolveVariable ctx name isGlobal isLocal =
     (if isGlobal then globals ctx name
      else if isLocal then locals ctx name
      else (case locals ctx name of Some d \<Rightarrow> Some d | None \<Rightarrow> globals ctx name))"

text \<open>
  Modelled from the spec: \<open>VMContext::defineSymbol\<close> and \<open>VMContext::raiseError\<close> are not
  in these files. The first binds the symbol to the slot, the second hands the error to
  the context.
\<close>

definition defineSymbol :: "string \<Rightarrow> nat \<Rightarrow> vmcontext_stmt \<Rightarrow> vmcontext_stmt" where
  "defineSymbol sname data ctx = ctx\<lparr> symbols := (symbols ctx)(sname \<mapsto> data) \<rparr>"

definition raiseError :: "error \<Rightarrow> vmcontext_stmt \<Rightarrow> vmcontext_stmt" where
  "raiseError e ctx = ctx\<lparr> raised := Some e \<rparr>"

text \<open>
  The loop of \<open>StmtGlobal::apply_\<close> over the symbols of the statement (a symbol is its
  name), and the method: the \<open>fassert\<close> that there are symbols (a failed assertion
  stops the method there), \<open>popCode\<close>, the loop.
\<close>

fun StmtGlobal_loop :: "nat \<Rightarrow> string list \<Rightarrow> vmcontext_stmt \<Rightarrow> vmcontext_stmt" where
  "StmtGlobal_loop line [] ctx = ctx"
| "StmtGlobal_loop line (s # rest) ctx =
     (case resolveVariable ctx s True False of
        None \<Rightarrow>
          (let current = m_function ctx;
               mname = (case function_module current of None \<Rightarrow> [] | Some m \<Rightarrow> m)
           in raiseError
                (CodeError (extra s (symbol (function_name current)
                                       (ErrorParam e_undef_sym line mname)))) ctx)
      | Some data \<Rightarrow> StmtGlobal_loop line rest (defineSymbol s data ctx))"

definition StmtGlobal_apply :: "string list \<Rightarrow> nat \<Rightarrow> vmcontext_stmt \<Rightarrow> vmcontext_stmt" where
  "StmtGlobal_apply syms line ctx =
     (if syms = [] then ctx\<lparr> raised := Some AssertFailed \<rparr>
      else StmtGlobal_loop line syms (popCode ctx))"

section \<open>Properties of single steps\<close>

text \<open>
  C10. The logical-not step replaces the top item, whatever its type, by the boolean
  negation of its truth value: no error, the same stack depth, and the same answer
  whatever the class handlers and the other steps of the engine are.
\<close>

theorem ExprNot_total:
  "pstep_apply eng (StepUnary ExprNot) (ctx\<lparr> dataStack := v # rest \<rparr>)
     = Inr (ctx\<lparr> dataStack := FLC_ITEM_BOOL (\<not> isTrue eng v) # rest \<rparr>)
   \<and> pstep_apply (eng\<lparr> class_op := h, other_apply := g \<rparr>) (StepUnary ExprNot) c
     = pstep_apply eng (StepUnary ExprNot) c"
  by (simp add: ExprNot_apply_def setTop_def split: list.splits)

text \<open>
  C4. The exact-equality step replaces its two operands by one boolean and raises
  nothing: nil equals nil, booleans, integers and numerics compare by value (numerics
  with the \<open>==\<close> of \<open>numeric\<close>), two deep or two user instances by the address of the
  instance, and operands of different types are never equal.
\<close>

theorem ExprEEQ_cases:
  "ExprEEQ_apply eng (ctx\<lparr> dataStack := op2 # op1 # rest \<rparr>)
     = Inr (ctx\<lparr> dataStack := FLC_ITEM_BOOL (ExprEEQ_result eng op1 op2) # rest \<rparr>)
   \<and> ExprEEQ_result eng FLC_ITEM_NIL FLC_ITEM_NIL
   \<and> ExprEEQ_result eng (FLC_ITEM_BOOL a) (FLC_ITEM_BOOL b) = (a = b)
   \<and> ExprEEQ_result eng (FLC_ITEM_INT i) (FLC_ITEM_INT j) = (i = j)
   \<and> ExprEEQ_result eng (FLC_ITEM_NUM x) (FLC_ITEM_NUM y) = num_eq eng x y
   \<and> ExprEEQ_result eng (FLC_ITEM_DEEP c1 p1) (FLC_ITEM_DEEP c2 p2) = (p1 = p2)
   \<and> ExprEEQ_result eng (FLC_ITEM_USER c1 p1) (FLC_ITEM_USER c2 p2) = (p1 = p2)
   \<and> (type_tag op1 \<noteq> type_tag op2 \<longrightarrow> \<not> ExprEEQ_result eng op1 op2)"
proof -
  have mismatch: "type_tag op1 \<noteq> type_tag op2 \<Longrightarrow> \<not> ExprEEQ_result eng op1 op2"
    by (cases op1; cases op2) (simp_all add: ExprEEQ_result_def)
  show ?thesis
    using mismatch by (simp add: ExprEEQ_apply_def ExprEEQ_result_def)
qed

theorem ExprEEQ_cases_witness:
  "type_tag (FLC_ITEM_NIL :: rat item) \<noteq> type_tag (FLC_ITEM_INT 0 :: rat item)
   \<and> \<not> ExprEEQ_result example_engine FLC_ITEM_NIL (FLC_ITEM_INT 0)
   \<and> ExprEEQ_apply example_engine \<lparr> dataStack = [FLC_ITEM_INT 0, FLC_ITEM_NIL], m_seqId = 3 \<rparr>
       = Inr \<lparr> dataStack = [FLC_ITEM_BOOL False], m_seqId = 3 \<rparr>"
  using ExprEEQ_cases [where eng = example_engine
          and ctx = "\<lparr> dataStack = [], m_seqId = 3 \<rparr>"
          and ?op2.0 = "FLC_ITEM_INT 0" and ?op1.0 = FLC_ITEM_NIL and rest = "[]"]
  by simp

lemma sint_inc_int64:
  fixes i :: int64
  assumes "sint i < 2 ^ 63 - 1"
  shows "sint (i + 1) = sint i + 1"
proof -
  have "- (2 ^ 63) \<le> sint i" using sint_ge [of i] by simp
  with assms have "signed_take_bit 63 (sint i + 1) = sint i + 1"
    by (simp add: signed_take_bit_int_eq_self)
  then show ?thesis by (simp add: sint_word_ariths)
qed

lemma sint_dec_int64:
  fixes i :: int64
  assumes "- (2 ^ 63) < sint i"
  shows "sint (i - 1) = sint i - 1"
proof -
  have "sint i < 2 ^ 63" using sint_lt [of i] by simp
  with assms have "signed_take_bit 63 (sint i - 1) = sint i - 1"
    by (simp add: signed_take_bit_int_eq_self)
  then show ?thesis by (simp add: sint_word_ariths)
qed

lemma sint_max_int64:
  fixes i :: int64
  assumes "sint i = 2 ^ 63 - 1"
  shows "sint (i + 1) = - (2 ^ 63)"
proof -
  have "sint (i + 1) = signed_take_bit 63 (sint i + 1)" by (simp add: sint_word_ariths)
  also have "\<dots> = signed_take_bit 63 (2 ^ 63 :: int)" using assms by simp
  also have "\<dots> = - (2 ^ 63)" by (simp add: signed_take_bit_eq_take_bit_shift)
  finally show ?thesis .
qed

lemma sint_min_int64:
  fixes i :: int64
  assumes "sint i = - (2 ^ 63)"
  shows "sint (i - 1) = 2 ^ 63 - 1"
proof -
  have "sint (i - 1) = signed_take_bit 63 (sint i - 1)" by (simp add: sint_word_ariths)
  also have "\<dots> = signed_take_bit 63 (- (2 ^ 63) - 1 :: int)" using assms by simp
  also have "\<dots> = 2 ^ 63 - 1" by (simp add: signed_take_bit_eq_take_bit_shift take_bit_eq_mod)
  finally show ?thesis .
qed

text \<open>
  C6, as amended. Pre-increment and pre-decrement of the top item: an integer stays an
  integer and becomes the \<open>int64\<close> sum or difference with 1, which is one more or one
  less except at the largest \<open>int64\<close> (the increment gives the smallest) and at the
  smallest (the decrement gives the largest); a numeric stays a numeric and becomes
  what the numeric addition or subtraction of 1 gives; a deep or user instance is
  handed to \<open>op_inc\<close> or \<open>op_dec\<close> of its class; any other item raises an
  \<open>OperandError\<close> with code \<open>e_invalid_op\<close> and the extra text \<open>preinc\<close> or \<open>predec\<close>.
\<close>

theorem ExprPreInc_PreDec_cases:
  "ExprPreInc_apply eng (ctx\<lparr> dataStack := v # rest \<rparr>) =
     (case v of
        FLC_ITEM_INT i \<Rightarrow> Inr (ctx\<lparr> dataStack := FLC_ITEM_INT (i + 1) # rest \<rparr>)
      | FLC_ITEM_NUM x \<Rightarrow>
          Inr (ctx\<lparr> dataStack := FLC_ITEM_NUM (num_add eng x (num_of_int eng 1)) # rest \<rparr>)
      | FLC_ITEM_DEEP cls inst \<Rightarrow> class_op eng op_inc cls inst (ctx\<lparr> dataStack := v # rest \<rparr>)
      | FLC_ITEM_USER cls inst \<Rightarrow> class_op eng op_inc cls inst (ctx\<lparr> dataStack := v # rest \<rparr>)
      | _ \<Rightarrow> Inl (OperandError \<lparr> m_errorCode = e_invalid_op, m_line = 487, m_module = [],
                                m_symbol = [], m_extra = ''preinc'' \<rparr>))
   \<and> ExprPreDec_apply eng (ctx\<lparr> dataStack := v # rest \<rparr>) =
     (case v of
        FLC_ITEM_INT i \<Rightarrow> Inr (ctx\<lparr> dataStack := FLC_ITEM_INT (i - 1) # rest \<rparr>)
      | FLC_ITEM_NUM x \<Rightarrow>
          Inr (ctx\<lparr> dataStack := FLC_ITEM_NUM (num_sub eng x (num_of_int eng 1)) # rest \<rparr>)
      | FLC_ITEM_DEEP cls inst \<Rightarrow> class_op eng op_dec cls inst (ctx\<lparr> dataStack := v # rest \<rparr>)
      | FLC_ITEM_USER cls inst \<Rightarrow> class_op eng op_dec cls inst (ctx\<lparr> dataStack := v # rest \<rparr>)
      | _ \<Rightarrow> Inl (OperandError \<lparr> m_errorCode = e_invalid_op, m_line = 610, m_module = [],
                                m_symbol = [], m_extra = ''predec'' \<rparr>))
   \<and> (sint n < 2 ^ 63 - 1 \<longrightarrow>
        (\<exists>j. ExprPreInc_apply eng (ctx\<lparr> dataStack := FLC_ITEM_INT n # rest \<rparr>)
               = Inr (ctx\<lparr> dataStack := FLC_ITEM_INT j # rest \<rparr>)
             \<and> sint j = sint n + 1))
   \<and> (sint n = 2 ^ 63 - 1 \<longrightarrow>
        (\<exists>j. ExprPreInc_apply eng (ctx\<lparr> dataStack := FLC_ITEM_INT n # rest \<rparr>)
               = Inr (ctx\<lparr> dataStack := FLC_ITEM_INT j # rest \<rparr>)
             \<and> sint j = - (2 ^ 63)))
   \<and> (- (2 ^ 63) < sint n \<longrightarrow>
        (\<exists>j. ExprPreDec_apply eng (ctx\<lparr> dataStack := FLC_ITEM_INT n # rest \<rparr>)
               = Inr (ctx\<lparr> dataStack := FLC_ITEM_INT j # rest \<rparr>)
             \<and> sint j = sint n - 1))
   \<and> (sint n = - (2 ^ 63) \<longrightarrow>
        (\<exists>j. ExprPreDec_apply eng (ctx\<lparr> dataStack := FLC_ITEM_INT n # rest \<rparr>)
               = Inr (ctx\<lparr> dataStack := FLC_ITEM_INT j # rest \<rparr>)
             \<and> sint j = 2 ^ 63 - 1))"
proof (intro conjI impI)
  show "ExprPreInc_apply eng (ctx\<lparr> dataStack := v # rest \<rparr>) =
     (case v of
        FLC_ITEM_INT i \<Rightarrow> Inr (ctx\<lparr> dataStack := FLC_ITEM_INT (i + 1) # rest \<rparr>)
      | FLC_ITEM_NUM x \<Rightarrow>
          Inr (ctx\<lparr> dataStack := FLC_ITEM_NUM (num_add eng x (num_of_int eng 1)) # rest \<rparr>)
      | FLC_ITEM_DEEP cls inst \<Rightarrow> class_op eng op_inc cls inst (ctx\<lparr> dataStack := v # rest \<rparr>)
      | FLC_ITEM_USER cls inst \<Rightarrow> class_op eng op_inc cls inst (ctx\<lparr> dataStack := v # rest \<rparr>)
      | _ \<Rightarrow> Inl (OperandError \<lparr> m_errorCode = e_invalid_op, m_line = 487, m_module = [],
                                m_symbol = [], m_extra = ''preinc'' \<rparr>))"
    by (cases v) (simp_all add: ExprPreInc_apply_def setTop_def extra_def ErrorParam_def)
  show "ExprPreDec_apply eng (ctx\<lparr> dataStack := v # rest \<rparr>) =
     (case v of
        FLC_ITEM_INT i \<Rightarrow> Inr (ctx\<lparr> dataStack := FLC_ITEM_INT (i - 1) # rest \<rparr>)
      | FLC_ITEM_NUM x \<Rightarrow>
          Inr (ctx\<lparr> dataStack := FLC_ITEM_NUM (num_sub eng x (num_of_int eng 1)) # rest \<rparr>)
      | FLC_ITEM_DEEP cls inst \<Rightarrow> class_op eng op_dec cls inst (ctx\<lparr> dataStack := v # rest \<rparr>)
      | FLC_ITEM_USER cls inst \<Rightarrow> class_op eng op_dec cls inst (ctx\<lparr> dataStack := v # rest \<rparr>)
      | _ \<Rightarrow> Inl (OperandError \<lparr> m_errorCode = e_invalid_op, m_line = 610, m_module = [],
                                m_symbol = [], m_extra = ''predec'' \<rparr>))"
    by (cases v) (simp_all add: ExprPreDec_apply_def setTop_def extra_def ErrorParam_def)
  have inc: "ExprPreInc_apply eng (ctx\<lparr> dataStack := FLC_ITEM_INT n # rest \<rparr>)
               = Inr (ctx\<lparr> dataStack := FLC_ITEM_INT (n + 1) # rest \<rparr>)"
    by (simp add: ExprPreInc_apply_def setTop_def)
  have dec: "ExprPreDec_apply eng (ctx\<lparr> dataStack := FLC_ITEM_INT n # rest \<rparr>)
               = Inr (ctx\<lparr> dataStack := FLC_ITEM_INT (n - 1) # rest \<rparr>)"
    by (simp add: ExprPreDec_apply_def setTop_def)
  show "\<exists>j. ExprPreInc_apply eng (ctx\<lparr> dataStack := FLC_ITEM_INT n # rest \<rparr>)
               = Inr (ctx\<lparr> dataStack := FLC_ITEM_INT j # rest \<rparr>)
             \<and> sint j = sint n + 1"
    if "sint n < 2 ^ 63 - 1"
    using inc sint_inc_int64 [OF that] by blast
  show "\<exists>j. ExprPreInc_apply eng (ctx\<lparr> dataStack := FLC_ITEM_INT n # rest \<rparr>)
               = Inr (ctx\<lparr> dataStack := FLC_ITEM_INT j # rest \<rparr>)
             \<and> sint j = - (2 ^ 63)"
    if "sint n = 2 ^ 63 - 1"
    using inc sint_max_int64 [OF that] by blast
  show "\<exists>j. ExprPreDec_apply eng (ctx\<lparr> dataStack := FLC_ITEM_INT n # rest \<rparr>)
               = Inr (ctx\<lparr> dataStack := FLC_ITEM_INT j # rest \<rparr>)
             \<and> sint j = sint n - 1"
    if "- (2 ^ 63) < sint n"
    using dec sint_dec_int64 [OF that] by blast
  show "\<exists>j. ExprPreDec_apply eng (ctx\<lparr> dataStack := FLC_ITEM_INT n # rest \<rparr>)
               = Inr (ctx\<lparr> dataStack := FLC_ITEM_INT j # rest \<rparr>)
             \<and> sint j = 2 ^ 63 - 1"
    if "sint n = - (2 ^ 63)"
    using dec sint_min_int64 [OF that] by blast
qed

theorem ExprPreInc_PreDec_cases_witness:
  "sint (5 :: int64) < 2 ^ 63 - 1
   \<and> ExprPreInc_apply example_engine \<lparr> dataStack = [FLC_ITEM_INT 5], m_seqId = 0 \<rparr>
       = Inr \<lparr> dataStack = [FLC_ITEM_INT 6], m_seqId = 0 \<rparr>
   \<and> sint (6 :: int64) = sint (5 :: int64) + 1
   \<and> - (2 ^ 63) < sint (5 :: int64)
   \<and> ExprPreDec_apply example_engine \<lparr> dataStack = [FLC_ITEM_INT 5], m_seqId = 0 \<rparr>
       = Inr \<lparr> dataStack = [FLC_ITEM_INT 4], m_seqId = 0 \<rparr>
   \<and> sint (4 :: int64) = sint (5 :: int64) - 1
   \<and> sint (9223372036854775807 :: int64) = 2 ^ 63 - 1
   \<and> (\<exists>j. ExprPreInc_apply example_engine
               \<lparr> dataStack = [FLC_ITEM_INT 9223372036854775807], m_seqId = 0 \<rparr>
             = Inr \<lparr> dataStack = [FLC_ITEM_INT j], m_seqId = 0 \<rparr>
           \<and> sint j = - (2 ^ 63))
   \<and> sint (9223372036854775808 :: int64) = - (2 ^ 63)
   \<and> (\<exists>j. ExprPreDec_apply example_engine
               \<lparr> dataStack = [FLC_ITEM_INT 9223372036854775808], m_seqId = 0 \<rparr>
             = Inr \<lparr> dataStack = [FLC_ITEM_INT j], m_seqId = 0 \<rparr>
           \<and> sint j = 2 ^ 63 - 1)
   \<and> ExprPreInc_apply example_engine \<lparr> dataStack = [FLC_ITEM_BOOL True], m_seqId = 0 \<rparr>
       = Inl (OperandError \<lparr> m_errorCode = e_invalid_op, m_line = 487, m_module = [],
                              m_symbol = [], m_extra = ''preinc'' \<rparr>)"
proof -
  let ?c = "\<lparr> dataStack = [], m_seqId = 0 \<rparr> :: rat vmcontext"
  have a: "sint (5 :: int64) < 2 ^ 63 - 1" "- (2 ^ 63) < sint (5 :: int64)"
    "sint (9223372036854775807 :: int64) = 2 ^ 63 - 1"
    "sint (9223372036854775808 :: int64) = - (2 ^ 63)"
    by simp_all
  note t5 = ExprPreInc_PreDec_cases [where eng = example_engine and ctx = ?c
              and v = "FLC_ITEM_INT 5" and rest = "[]" and n = 5]
  note tmax = ExprPreInc_PreDec_cases [where eng = example_engine and ctx = ?c
              and v = "FLC_ITEM_BOOL True" and rest = "[]" and n = 9223372036854775807]
  note tmin = ExprPreInc_PreDec_cases [where eng = example_engine and ctx = ?c
              and v = "FLC_ITEM_BOOL True" and rest = "[]" and n = 9223372036854775808]
  from t5 have b: "ExprPreInc_apply example_engine \<lparr> dataStack = [FLC_ITEM_INT 5], m_seqId = 0 \<rparr>
       = Inr \<lparr> dataStack = [FLC_ITEM_INT 6], m_seqId = 0 \<rparr>"
    "ExprPreDec_apply example_engine \<lparr> dataStack = [FLC_ITEM_INT 5], m_seqId = 0 \<rparr>
       = Inr \<lparr> dataStack = [FLC_ITEM_INT 4], m_seqId = 0 \<rparr>"
    by simp_all
  have c: "sint (6 :: int64) = sint (5 :: int64) + 1" "sint (4 :: int64) = sint (5 :: int64) - 1"
    by simp_all
  from tmax a(3) have d: "\<exists>j. ExprPreInc_apply example_engine
               \<lparr> dataStack = [FLC_ITEM_INT 9223372036854775807], m_seqId = 0 \<rparr>
             = Inr \<lparr> dataStack = [FLC_ITEM_INT j], m_seqId = 0 \<rparr>
           \<and> sint j = - (2 ^ 63)"
    by simp
  from tmin a(4) have e: "\<exists>j. ExprPreDec_apply example_engine
               \<lparr> dataStack = [FLC_ITEM_INT 9223372036854775808], m_seqId = 0 \<rparr>
             = Inr \<lparr> dataStack = [FLC_ITEM_INT j], m_seqId = 0 \<rparr>
           \<and> sint j = 2 ^ 63 - 1"
    by simp
  from tmax have f: "ExprPreInc_apply example_engine \<lparr> dataStack = [FLC_ITEM_BOOL True], m_seqId = 0 \<rparr>
       = Inl (OperandError \<lparr> m_errorCode = e_invalid_op, m_line = 487, m_module = [],
                              m_symbol = [], m_extra = ''preinc'' \<rparr>)"
    by simp
  from a b c d e f show ?thesis by blast
qed

text \<open>
  C6 as stated fails at the ends of \<open>int64\<close>: the increment of the largest integer is
  the smallest one, and the decrement of the smallest is the largest.
\<close>

theorem ExprPreInc_PreDec_counterexample:
  "ExprPreInc_apply example_engine \<lparr> dataStack = [FLC_ITEM_INT 9223372036854775807], m_seqId = 0 \<rparr>
     = Inr \<lparr> dataStack = [FLC_ITEM_INT 9223372036854775808], m_seqId = 0 \<rparr>
   \<and> sint (9223372036854775807 :: int64) = 9223372036854775807
   \<and> sint (9223372036854775808 :: int64) = - 9223372036854775808
   \<and> ExprPreDec_apply example_engine \<lparr> dataStack = [FLC_ITEM_INT 9223372036854775808], m_seqId = 0 \<rparr>
     = Inr \<lparr> dataStack = [FLC_ITEM_INT 9223372036854775807], m_seqId = 0 \<rparr>"
  by (simp add: ExprPreInc_apply_def ExprPreDec_apply_def setTop_def)

section \<open>Properties of precompilation\<close>

lemma assign_at_end:
  "length xs = n \<Longrightarrow> assignField n v (xs @ y # ys) = xs @ v # ys"
  by (simp add: assignField_def list_update_append)

lemma precompile_code: "precompile e pcode = pcode @ code e (length pcode)"
proof (induction e arbitrary: pcode)
  case (Leaf n)
  show ?case by (simp add: Expression_precompile_def pushStep_def)
next
  case (Unary op a)
  show ?case
    by (cases op)
       (simp_all add: Unary.IH UnaryExpression_precompile_def ExprPostInc_precompile_def
          ExprPostDec_precompile_def pushStep_def)
next
  case (Binary op a b)
  let ?n = "length pcode"
  let ?A = "code a ?n"
  let ?B = "code b (?n + length ?A + 1)"
  have p1: "precompile a pcode = pcode @ ?A" by (rule Binary.IH)
  have p3: "\<And>G. precompile b (pushStep G (pcode @ ?A)) = (pcode @ ?A) @ G # ?B"
    by (simp add: Binary.IH pushStep_def)
  have p4: "\<And>G S. pushStep S ((pcode @ ?A) @ G # ?B) = (pcode @ ?A) @ G # (?B @ [S])"
    by (simp add: pushStep_def)
  have p5: "\<And>G S v. assignField (length (pcode @ ?A)) v ((pcode @ ?A) @ G # (?B @ [S]))
              = (pcode @ ?A) @ v # (?B @ [S])"
    by (rule assign_at_end) simp
  show ?case
  proof (cases op)
    case ExprAnd
    show ?thesis
      unfolding ExprAnd precompile.simps ExprAnd_precompile_def Let_def p1 p3 p4 p5
      by (simp add: Let_def)
  next
    case ExprOr
    show ?thesis
      unfolding ExprOr precompile.simps ExprOr_precompile_def Let_def p1 p3 p4 p5
      by (simp add: Let_def)
  next
    case ExprAssign
    then show ?thesis
      by (simp add: Binary.IH ExprAssign_precompile_def Let_def)
  qed (simp_all add: Binary.IH BinaryExpression_precompile_def Let_def pushStep_def)
next
  case (Ternary op a b c)
  show ?case
  proof (cases op)
    case ExprIIF
    let ?n = "length pcode"
    let ?A = "code a ?n"
    let ?B = "code b (?n + length ?A + 1)"
    let ?F = "?n + length ?A + 1 + length ?B + 1"
    let ?C = "code c ?F"
    have p1: "precompile a pcode = pcode @ ?A" by (rule Ternary.IH)
    have p3: "precompile b (pushStep (StepIIF 0) (pcode @ ?A)) = (pcode @ ?A) @ StepIIF 0 # ?B"
      by (simp add: Ternary.IH pushStep_def)
    have p5: "assignField (length (pcode @ ?A)) (StepIIF ?F)
                (pushStep (GateIIF 0) ((pcode @ ?A) @ StepIIF 0 # ?B))
              = (pcode @ ?A) @ StepIIF ?F # ?B @ [GateIIF 0]"
      by (simp add: assignField_def pushStep_def list_update_append)
    have l4: "length (pushStep (GateIIF 0) ((pcode @ ?A) @ StepIIF 0 # ?B)) = ?F"
      by (simp add: pushStep_def)
    have p6: "precompile c ((pcode @ ?A) @ StepIIF ?F # ?B @ [GateIIF 0])
              = ((pcode @ ?A) @ StepIIF ?F # ?B) @ GateIIF 0 # ?C"
      by (simp add: Ternary.IH add.assoc)
    have p7: "assignField (length ((pcode @ ?A) @ StepIIF 0 # ?B))
                (GateIIF (length (((pcode @ ?A) @ StepIIF ?F # ?B) @ GateIIF 0 # ?C)))
                (((pcode @ ?A) @ StepIIF ?F # ?B) @ GateIIF 0 # ?C)
              = ((pcode @ ?A) @ StepIIF ?F # ?B)
                  @ GateIIF (length (((pcode @ ?A) @ StepIIF ?F # ?B) @ GateIIF 0 # ?C)) # ?C"
      by (rule assign_at_end) simp
    show ?thesis
      unfolding ExprIIF precompile.simps ExprIIF_precompile_def Let_def p1 p3 l4 p5 p6 p7
      by (simp add: Let_def add.assoc)
  qed
qed

lemma emitted_code: "emitted e pcode = code e (length pcode)"
  by (simp add: emitted_def precompile_code)

lemma inherited_code: "inherited e \<Longrightarrow> code e pos = postorder e"
proof (induction e arbitrary: pos)
  case (Leaf n)
  show ?case by simp
next
  case (Unary op a)
  then show ?case by (cases op) (simp_all add: inherits_unary_def)
next
  case (Binary op a b)
  then show ?case by (cases op) (simp_all add: inherits_binary_def Let_def)
next
  case (Ternary op a b c)
  then show ?case by (cases op) simp
qed

text \<open>
  C2, as amended. A node of a class that inherits \<open>precompile\<close> from
  \<open>UnaryExpression\<close>, \<open>BinaryExpression\<close> or \<open>TernaryExpression\<close> emits the whole
  sequence of each child, first to last, and then its own step; a tree of such nodes
  flattens to its depth-first post-order. Post-increment and post-decrement, and the
  logical and/or, keep that order and add their gate step (after the own step, or
  between the two children). An assignment emits its second child before its first and
  no step of its own. The ternary conditional emits its first child, then its own step
  (which holds the position of the first step of the third child), then its second
  child, its gate (which holds the length of the whole sequence) and its third child.
\<close>

theorem precompile_children_first:
  "(inherits_unary uop \<longrightarrow>
      precompile (Unary uop a) pcode = pcode @ emitted a pcode @ [StepUnary uop])
   \<and> (inherits_binary bop \<longrightarrow>
      precompile (Binary bop a b) pcode
        = pcode @ emitted a pcode @ emitted b (precompile a pcode) @ [StepBinary bop])
   \<and> TernaryExpression_precompile this (precompile a) (precompile b) (precompile c) pcode
        = pcode @ emitted a pcode @ emitted b (precompile a pcode)
            @ emitted c (precompile b (precompile a pcode)) @ [this]
   \<and> (inherited e \<longrightarrow> precompile e pcode = pcode @ postorder e)
   \<and> precompile (Unary ExprPostInc a) pcode
        = pcode @ emitted a pcode @ [StepUnary ExprPostInc, GatePostInc]
   \<and> precompile (Unary ExprPostDec a) pcode
        = pcode @ emitted a pcode @ [StepUnary ExprPostDec, GatePostDec]
   \<and> precompile (Binary ExprAnd a b) pcode
        = pcode @ emitted a pcode @ [GateAnd (length (precompile (Binary ExprAnd a b) pcode))]
            @ emitted b (pushStep (GateAnd 0) (precompile a pcode)) @ [StepBinary ExprAnd]
   \<and> precompile (Binary ExprOr a b) pcode
        = pcode @ emitted a pcode @ [GateOr (length (precompile (Binary ExprOr a b) pcode))]
            @ emitted b (pushStep (GateOr 0) (precompile a pcode)) @ [StepBinary ExprOr]
   \<and> precompile (Binary ExprAssign a b) pcode
        = pcode @ emitted b pcode @ emitted a (precompile b pcode)
   \<and> precompile (Ternary ExprIIF a b c) pcode
        = pcode @ emitted a pcode
            @ [StepIIF (Suc (length (precompile b (pushStep (StepIIF 0) (precompile a pcode)))))]
            @ emitted b (pushStep (StepIIF 0) (precompile a pcode))
            @ [GateIIF (length (precompile (Ternary ExprIIF a b c) pcode))]
            @ emitted c (pushStep (GateIIF 0)
                          (precompile b (pushStep (StepIIF 0) (precompile a pcode))))"
proof (intro conjI impI)
  assume "inherits_unary uop"
  then show "precompile (Unary uop a) pcode = pcode @ emitted a pcode @ [StepUnary uop]"
    by (cases uop) (simp_all add: inherits_unary_def precompile_code emitted_code)
next
  assume "inherits_binary bop"
  then show "precompile (Binary bop a b) pcode
        = pcode @ emitted a pcode @ emitted b (precompile a pcode) @ [StepBinary bop]"
    by (cases bop) (simp_all add: inherits_binary_def precompile_code emitted_code Let_def)
next
  show "TernaryExpression_precompile this (precompile a) (precompile b) (precompile c) pcode
        = pcode @ emitted a pcode @ emitted b (precompile a pcode)
            @ emitted c (precompile b (precompile a pcode)) @ [this]"
    by (simp add: TernaryExpression_precompile_def pushStep_def precompile_code emitted_code)
next
  assume "inherited e"
  then show "precompile e pcode = pcode @ postorder e"
    by (simp add: precompile_code inherited_code)
next
  show "precompile (Unary ExprPostInc a) pcode
        = pcode @ emitted a pcode @ [StepUnary ExprPostInc, GatePostInc]"
    by (simp add: precompile_code emitted_code)
next
  show "precompile (Unary ExprPostDec a) pcode
        = pcode @ emitted a pcode @ [StepUnary ExprPostDec, GatePostDec]"
    by (simp add: precompile_code emitted_code)
next
  show "precompile (Binary ExprAnd a b) pcode
        = pcode @ emitted a pcode @ [GateAnd (length (precompile (Binary ExprAnd a b) pcode))]
            @ emitted b (pushStep (GateAnd 0) (precompile a pcode)) @ [StepBinary ExprAnd]"
    by (simp add: precompile_code emitted_code Let_def pushStep_def)
next
  show "precompile (Binary ExprOr a b) pcode
        = pcode @ emitted a pcode @ [GateOr (length (precompile (Binary ExprOr a b) pcode))]
            @ emitted b (pushStep (GateOr 0) (precompile a pcode)) @ [StepBinary ExprOr]"
    by (simp add: precompile_code emitted_code Let_def pushStep_def)
next
  show "precompile (Binary ExprAssign a b) pcode
        = pcode @ emitted b pcode @ emitted a (precompile b pcode)"
    by (simp add: precompile_code emitted_code Let_def)
next
  show "precompile (Ternary ExprIIF a b c) pcode
        = pcode @ emitted a pcode
            @ [StepIIF (Suc (length (precompile b (pushStep (StepIIF 0) (precompile a pcode)))))]
            @ emitted b (pushStep (StepIIF 0) (precompile a pcode))
            @ [GateIIF (length (precompile (Ternary ExprIIF a b c) pcode))]
            @ emitted c (pushStep (GateIIF 0)
                          (precompile b (pushStep (StepIIF 0) (precompile a pcode))))"
    by (simp add: precompile_code emitted_code Let_def pushStep_def add.assoc)
qed

theorem precompile_children_first_witness:
  "inherits_unary ExprNeg
   \<and> precompile (Unary ExprNeg (Leaf 1)) [StepLeaf 0] = [StepLeaf 0, StepLeaf 1, StepUnary ExprNeg]
   \<and> inherits_binary ExprLT
   \<and> precompile (Binary ExprLT (Leaf 1) (Leaf 2)) [StepLeaf 0]
        = [StepLeaf 0, StepLeaf 1, StepLeaf 2, StepBinary ExprLT]
   \<and> inherited (Binary ExprEEQ (Leaf 1) (Binary ExprLT (Leaf 2) (Unary ExprNeg (Leaf 3))))
   \<and> precompile (Binary ExprEEQ (Leaf 1) (Binary ExprLT (Leaf 2) (Unary ExprNeg (Leaf 3)))) [StepLeaf 0]
        = [StepLeaf 0, StepLeaf 1, StepLeaf 2, StepLeaf 3, StepUnary ExprNeg,
           StepBinary ExprLT, StepBinary ExprEEQ]"
  using precompile_children_first [where uop = ExprNeg and bop = ExprLT and a = "Leaf 1"
          and b = "Leaf 2" and c = "Leaf 3" and this = "StepIIF 0" and pcode = "[StepLeaf 0]"
          and e = "Binary ExprEEQ (Leaf 1) (Binary ExprLT (Leaf 2) (Unary ExprNeg (Leaf 3)))"]
  by (simp add: inherits_unary_def inherits_binary_def emitted_def
        Expression_precompile_def pushStep_def UnaryExpression_precompile_def
        BinaryExpression_precompile_def)

text \<open>
  C2 as stated fails: an assignment emits the second child first and pushes no step of
  its own, and the ternary conditional pushes its own step before its second and third
  child.
\<close>

theorem precompile_children_first_counterexample:
  "precompile (Binary ExprAssign (Leaf 1) (Leaf 2)) [] = [StepLeaf 2, StepLeaf 1]
   \<and> precompile (Binary ExprAssign (Leaf 1) (Leaf 2)) []
        \<noteq> postorder (Binary ExprAssign (Leaf 1) (Leaf 2))
   \<and> precompile (Ternary ExprIIF (Leaf 1) (Leaf 2) (Leaf 3)) []
        = [StepLeaf 1, StepIIF 4, StepLeaf 2, GateIIF 5, StepLeaf 3]
   \<and> precompile (Ternary ExprIIF (Leaf 1) (Leaf 2) (Leaf 3)) []
        \<noteq> postorder (Ternary ExprIIF (Leaf 1) (Leaf 2) (Leaf 3))"
  by (simp add: ExprAssign_precompile_def ExprIIF_precompile_def Expression_precompile_def
        pushStep_def assignField_def Let_def)

section \<open>Properties of running a sequence\<close>

lemma PCode_apply_done:
  "\<not> m_seqId ctx < length pcode \<Longrightarrow> PCode_apply eng pcode n ctx = Some ([], Inr ctx)"
  by (cases n) simp_all

lemma PCode_apply_step:
  assumes "m_seqId ctx < length pcode"
    and "pstep_apply eng (pcode ! m_seqId ctx) (ctx\<lparr> m_seqId := Suc (m_seqId ctx) \<rparr>) = Inr ctx'"
    and "PCode_apply eng pcode n ctx' = Some (trace, r)"
  shows "PCode_apply eng pcode (Suc n) ctx = Some (m_seqId ctx # trace, r)"
  using assms by simp

lemma PCode_apply_more_fuel:
  "PCode_apply eng pcode n ctx = Some x \<Longrightarrow> PCode_apply eng pcode (n + k) ctx = Some x"
proof (induction n arbitrary: ctx x)
  case 0
  then show ?case by (simp add: PCode_apply_done split: if_splits)
next
  case (Suc n)
  show ?case
  proof (cases "m_seqId ctx < length pcode")
    case False
    with Suc.prems show ?thesis by (simp add: PCode_apply_done)
  next
    case True
    show ?thesis
    proof (cases "pstep_apply eng (pcode ! m_seqId ctx) (ctx\<lparr> m_seqId := Suc (m_seqId ctx) \<rparr>)")
      case (Inl e)
      with True Suc.prems show ?thesis by simp
    next
      case (Inr ctx')
      with True Suc.prems obtain y where y: "PCode_apply eng pcode n ctx' = Some y"
        by (auto split: option.splits)
      from Suc.IH [OF y] have "PCode_apply eng pcode (n + k) ctx' = Some y" .
      with True Inr y Suc.prems show ?thesis by (auto split: prod.splits)
    qed
  qed
qed

lemma PCode_apply_trace_bound:
  "PCode_apply eng pcode n ctx = Some (trace, r) \<Longrightarrow> k \<in> set trace \<Longrightarrow> k < length pcode"
proof (induction n arbitrary: ctx trace)
  case 0
  then show ?case by (simp split: if_splits)
next
  case (Suc n)
  show ?case
  proof (cases "m_seqId ctx < length pcode")
    case False
    with Suc.prems show ?thesis by simp
  next
    case True
    show ?thesis
    proof (cases "pstep_apply eng (pcode ! m_seqId ctx) (ctx\<lparr> m_seqId := Suc (m_seqId ctx) \<rparr>)")
      case (Inl e)
      with True Suc.prems show ?thesis by auto
    next
      case (Inr ctx')
      with True Suc.prems obtain t where t: "PCode_apply eng pcode n ctx' = Some (t, r)"
        and tr: "trace = m_seqId ctx # t"
        by (auto split: option.splits)
      show ?thesis
      proof (cases "k = m_seqId ctx")
        case True
        with \<open>m_seqId ctx < length pcode\<close> show ?thesis by simp
      next
        case False
        with Suc.prems(2) tr have "k \<in> set t" by simp
        with Suc.IH [OF t] show ?thesis .
      qed
    qed
  qed
qed

lemma PCode_apply_prefix:
  assumes "PCode_apply eng p1 n ctx = Some (t1, Inr ctx1)"
    and "PCode_apply eng (p1 @ p2) m ctx1 = Some (t2, r)"
  shows "PCode_apply eng (p1 @ p2) (n + m) ctx = Some (t1 @ t2, r)"
  using assms
proof (induction n arbitrary: ctx t1)
  case 0
  then show ?case by (simp split: if_splits)
next
  case (Suc n)
  show ?case
  proof (cases "m_seqId ctx < length p1")
    case False
    with Suc.prems(1) have "t1 = []" "ctx1 = ctx" by simp_all
    with Suc.prems(2) PCode_apply_more_fuel [of eng "p1 @ p2" m ctx "(t2, r)" "Suc n"]
    show ?thesis by (simp add: add.commute)
  next
    case True
    then have nth: "(p1 @ p2) ! m_seqId ctx = p1 ! m_seqId ctx" by (simp add: nth_append)
    from True have lt: "m_seqId ctx < length (p1 @ p2)" by simp
    show ?thesis
    proof (cases "pstep_apply eng (p1 ! m_seqId ctx) (ctx\<lparr> m_seqId := Suc (m_seqId ctx) \<rparr>)")
      case (Inl e)
      with True Suc.prems(1) show ?thesis by simp
    next
      case (Inr ctx')
      with True Suc.prems(1) obtain t where t: "PCode_apply eng p1 n ctx' = Some (t, Inr ctx1)"
        and tr: "t1 = m_seqId ctx # t"
        by (auto split: option.splits)
      from Suc.IH [OF t Suc.prems(2)]
      have "PCode_apply eng (p1 @ p2) (n + m) ctx' = Some (t @ t2, r)" .
      with lt nth Inr tr show ?thesis by simp
    qed
  qed
qed

lemma and_layout:
  "precompile (Binary ExprAnd a b) pre
     = precompile a pre
         @ GateAnd (length (precompile (Binary ExprAnd a b) pre))
         # emitted b (pushStep (GateAnd 0) (precompile a pre)) @ [StepBinary ExprAnd]"
  by (simp add: precompile_code emitted_code Let_def pushStep_def)

lemma and_gate_false_run:
  fixes eng :: "'f engine"
  assumes ev_a: "PCode_apply eng pa n start
      = Some (ta, Inr \<lparr> dataStack = v # stk, m_seqId = length pa \<rparr>)"
    and nv: "\<not> isTrue eng v"
    and past: "length (pa @ GateAnd t # rest) \<le> t"
  shows "PCode_apply eng (pa @ GateAnd t # rest) (n + 1) start
      = Some (ta @ [length pa], Inr \<lparr> dataStack = FLC_ITEM_BOOL False # stk, m_seqId = t \<rparr>)"
proof -
  have g1: "PCode_apply eng (pa @ GateAnd t # rest) 1 \<lparr> dataStack = v # stk, m_seqId = length pa \<rparr>
      = Some ([length pa], Inr \<lparr> dataStack = FLC_ITEM_BOOL False # stk, m_seqId = t \<rparr>)"
    using nv past by (simp add: ExprAnd_Gate_apply_def setTop_def)
  show ?thesis
    by (rule PCode_apply_prefix [OF ev_a g1])
qed

lemma and_gate_true_run:
  fixes eng :: "'f engine"
  assumes ev_a: "PCode_apply eng pa n start
      = Some (ta, Inr \<lparr> dataStack = v # stk, m_seqId = length pa \<rparr>)"
    and tv: "isTrue eng v"
    and ev_b: "PCode_apply eng (pa @ GateAnd t # B) m \<lparr> dataStack = stk, m_seqId = Suc (length pa) \<rparr>
      = Some (tb, Inr \<lparr> dataStack = w # stk, m_seqId = Suc (length pa + length B) \<rparr>)"
  shows "PCode_apply eng (pa @ GateAnd t # B @ [StepBinary ExprAnd]) (n + 1 + m + 1) start
      = Some (ta @ length pa # tb @ [Suc (length pa + length B)],
              Inr \<lparr> dataStack = FLC_ITEM_BOOL (isTrue eng w) # stk,
                    m_seqId = Suc (Suc (length pa + length B)) \<rparr>)"
proof -
  let ?pb = "pa @ GateAnd t # B"
  have g1: "PCode_apply eng ?pb (Suc m) \<lparr> dataStack = v # stk, m_seqId = length pa \<rparr>
      = Some (length pa # tb, Inr \<lparr> dataStack = w # stk, m_seqId = Suc (length pa + length B) \<rparr>)"
    using tv ev_b by (simp add: ExprAnd_Gate_apply_def popData_def)
  have upto: "PCode_apply eng ?pb (n + Suc m) start
      = Some (ta @ length pa # tb,
              Inr \<lparr> dataStack = w # stk, m_seqId = Suc (length pa + length B) \<rparr>)"
    by (rule PCode_apply_prefix [OF ev_a g1])
  have last: "PCode_apply eng (?pb @ [StepBinary ExprAnd]) 1
        \<lparr> dataStack = w # stk, m_seqId = Suc (length pa + length B) \<rparr>
      = Some ([Suc (length pa + length B)],
              Inr \<lparr> dataStack = FLC_ITEM_BOOL (isTrue eng w) # stk,
                    m_seqId = Suc (Suc (length pa + length B)) \<rparr>)"
    by (simp add: ExprAnd_apply_def setTop_def nth_append)
  have "PCode_apply eng (?pb @ [StepBinary ExprAnd]) ((n + Suc m) + 1) start
      = Some ((ta @ length pa # tb) @ [Suc (length pa + length B)],
              Inr \<lparr> dataStack = FLC_ITEM_BOOL (isTrue eng w) # stk,
                    m_seqId = Suc (Suc (length pa + length B)) \<rparr>)"
    by (rule PCode_apply_prefix [OF upto last])
  then show ?thesis by (simp add: add.assoc)
qed


text \<open>
  C1. Let the sequence of \<open>a and b\<close> be precompiled behind any sequence \<open>pre\<close>, and
  let the steps of \<open>a\<close> run from the first of them and complete with the value \<open>v\<close>
  on top of the stack they started on. The step after those of \<open>a\<close> is the gate, its
  jump field is the length of the whole sequence, and the steps of \<open>b\<close> and the step
  of the node follow it. If \<open>v\<close> is false, the run of the whole sequence completes one
  step later: the gate has set the sequence id to the end, the steps applied are those
  of \<open>a\<close> and the gate, none of \<open>b\<close>, and the stack holds boolean false where \<open>v\<close>
  was. If \<open>v\<close> is true, the gate pops it, and when the steps of \<open>b\<close> complete with a
  value \<open>w\<close> the run of the whole sequence completes with the boolean of \<open>w\<close> as the
  one value on top of the initial stack.
\<close>

theorem and_short_circuit:
  fixes eng :: "'f engine"
  assumes ev_a: "PCode_apply eng (precompile a pre) n \<lparr> dataStack = stk, m_seqId = length pre \<rparr>
      = Some (ta, Inr \<lparr> dataStack = v # stk, m_seqId = length (precompile a pre) \<rparr>)"
  shows "precompile (Binary ExprAnd a b) pre ! length (precompile a pre)
           = GateAnd (length (precompile (Binary ExprAnd a b) pre))
    \<and> drop (Suc (length (precompile a pre))) (precompile (Binary ExprAnd a b) pre)
           = emitted b (pushStep (GateAnd 0) (precompile a pre)) @ [StepBinary ExprAnd]
    \<and> (\<not> isTrue eng v \<longrightarrow>
          PCode_apply eng (precompile (Binary ExprAnd a b) pre) (n + 1)
              \<lparr> dataStack = stk, m_seqId = length pre \<rparr>
            = Some (ta @ [length (precompile a pre)],
                    Inr \<lparr> dataStack = FLC_ITEM_BOOL False # stk,
                          m_seqId = length (precompile (Binary ExprAnd a b) pre) \<rparr>)
          \<and> (\<forall>k \<in> set (ta @ [length (precompile a pre)]). k \<le> length (precompile a pre)))
    \<and> (isTrue eng v \<longrightarrow>
          PCode_apply eng (butlast (precompile (Binary ExprAnd a b) pre)) m
              \<lparr> dataStack = stk, m_seqId = Suc (length (precompile a pre)) \<rparr>
            = Some (tb, Inr \<lparr> dataStack = w # stk,
                              m_seqId = length (precompile (Binary ExprAnd a b) pre) - 1 \<rparr>) \<longrightarrow>
          PCode_apply eng (precompile (Binary ExprAnd a b) pre) (n + 1 + m + 1)
              \<lparr> dataStack = stk, m_seqId = length pre \<rparr>
            = Some (ta @ length (precompile a pre) # tb
                       @ [length (precompile (Binary ExprAnd a b) pre) - 1],
                    Inr \<lparr> dataStack = FLC_ITEM_BOOL (isTrue eng w) # stk,
                          m_seqId = length (precompile (Binary ExprAnd a b) pre) \<rparr>))"
proof -
  define pc where "pc = precompile (Binary ExprAnd a b) pre"
  define pa where "pa = precompile a pre"
  define B where "B = emitted b (pushStep (GateAnd 0) pa)"
  define start where "start = (\<lparr> dataStack = stk, m_seqId = length pre \<rparr> :: 'f vmcontext)"
  have lay: "pc = pa @ GateAnd (length pc) # B @ [StepBinary ExprAnd]"
    unfolding pc_def pa_def B_def by (rule and_layout)
  have len: "length pc = Suc (Suc (length pa + length B))"
    by (subst lay) simp
  have eva: "PCode_apply eng pa n start
      = Some (ta, Inr \<lparr> dataStack = v # stk, m_seqId = length pa \<rparr>)"
    using ev_a unfolding pa_def start_def .
  have nth: "pc ! length pa = GateAnd (length pc)"
    by (subst lay) (simp only: nth_append_length)
  have drp: "drop (Suc (length pa)) pc = B @ [StepBinary ExprAnd]"
    by (subst lay) simp
  have bl: "butlast pc = pa @ GateAnd (length pc) # B"
    by (subst lay) (simp add: butlast_append)
  have bound: "\<forall>k \<in> set (ta @ [length pa]). k \<le> length pa"
    using PCode_apply_trace_bound [OF eva] by (auto simp: less_imp_le)
  have false_case: "PCode_apply eng pc (n + 1) start
        = Some (ta @ [length pa], Inr \<lparr> dataStack = FLC_ITEM_BOOL False # stk, m_seqId = length pc \<rparr>)"
    if nv: "\<not> isTrue eng v"
  proof -
    have "length (pa @ GateAnd (length pc) # B @ [StepBinary ExprAnd]) \<le> length pc"
      using lay by simp
    from and_gate_false_run [OF eva nv this] lay show ?thesis by simp
  qed
  have true_case: "PCode_apply eng pc (n + 1 + m + 1) start
        = Some (ta @ length pa # tb @ [length pc - 1],
                Inr \<lparr> dataStack = FLC_ITEM_BOOL (isTrue eng w) # stk, m_seqId = length pc \<rparr>)"
    if tv: "isTrue eng v"
      and ev_b: "PCode_apply eng (butlast pc) m \<lparr> dataStack = stk, m_seqId = Suc (length pa) \<rparr>
            = Some (tb, Inr \<lparr> dataStack = w # stk, m_seqId = length pc - 1 \<rparr>)"
  proof -
    have evb: "PCode_apply eng (pa @ GateAnd (length pc) # B) m
          \<lparr> dataStack = stk, m_seqId = Suc (length pa) \<rparr>
        = Some (tb, Inr \<lparr> dataStack = w # stk, m_seqId = Suc (length pa + length B) \<rparr>)"
      using ev_b unfolding bl len by simp
    from and_gate_true_run [OF eva tv evb] lay len show ?thesis by simp
  qed
  show ?thesis
    using nth drp bound false_case true_case
    unfolding pc_def pa_def B_def start_def by blast
qed

lemma fuel_Suc:
  "PCode_apply eng pcode 2 = PCode_apply eng pcode (Suc (Suc 0))"
  "PCode_apply eng pcode 3 = PCode_apply eng pcode (Suc (Suc (Suc 0)))"
  "PCode_apply eng pcode 4 = PCode_apply eng pcode (Suc (Suc (Suc (Suc 0))))"
  by (simp_all add: eval_nat_numeral)

lemma PCode_apply_numeral:
  "PCode_apply eng pcode (numeral k) ctx =
     (if m_seqId ctx < length pcode
      then (case pstep_apply eng (pcode ! m_seqId ctx) (ctx\<lparr> m_seqId := Suc (m_seqId ctx) \<rparr>) of
              Inl e \<Rightarrow> Some ([m_seqId ctx], Inl e)
            | Inr ctx' \<Rightarrow>
                (case PCode_apply eng pcode (pred_numeral k) ctx' of
                   None \<Rightarrow> None
                 | Some (trace, r) \<Rightarrow> Some (m_seqId ctx # trace, r)))
      else Some ([], Inr ctx))"
  by (simp add: numeral_eq_Suc)

theorem and_short_circuit_witness:
  "PCode_apply example_engine (precompile (Leaf 0) []) 1 \<lparr> dataStack = [], m_seqId = 0 \<rparr>
      = Some ([0], Inr \<lparr> dataStack = [FLC_ITEM_INT 0], m_seqId = 1 \<rparr>)
   \<and> \<not> isTrue example_engine (FLC_ITEM_INT 0)
   \<and> precompile (Binary ExprAnd (Leaf 0) (Leaf 5)) []
      = [StepLeaf 0, GateAnd 4, StepLeaf 5, StepBinary ExprAnd]
   \<and> PCode_apply example_engine (precompile (Binary ExprAnd (Leaf 0) (Leaf 5)) []) 2
        \<lparr> dataStack = [], m_seqId = 0 \<rparr>
      = Some ([0, 1], Inr \<lparr> dataStack = [FLC_ITEM_BOOL False], m_seqId = 4 \<rparr>)
   \<and> PCode_apply example_engine (precompile (Leaf 7) []) 1 \<lparr> dataStack = [], m_seqId = 0 \<rparr>
      = Some ([0], Inr \<lparr> dataStack = [FLC_ITEM_INT 7], m_seqId = 1 \<rparr>)
   \<and> isTrue example_engine (FLC_ITEM_INT 7)
   \<and> PCode_apply example_engine (butlast (precompile (Binary ExprAnd (Leaf 7) (Leaf 5)) [])) 1
        \<lparr> dataStack = [], m_seqId = 2 \<rparr>
      = Some ([2], Inr \<lparr> dataStack = [FLC_ITEM_INT 5], m_seqId = 3 \<rparr>)
   \<and> PCode_apply example_engine (precompile (Binary ExprAnd (Leaf 7) (Leaf 5)) []) 4
        \<lparr> dataStack = [], m_seqId = 0 \<rparr>
      = Some ([0, 1, 2, 3], Inr \<lparr> dataStack = [FLC_ITEM_BOOL True], m_seqId = 4 \<rparr>)"
proof -
  have pre_simps: "precompile (Leaf 0) [] = [StepLeaf 0]" "precompile (Leaf 7) [] = [StepLeaf 7]"
    "precompile (Binary ExprAnd (Leaf 0) (Leaf 5)) []
       = [StepLeaf 0, GateAnd 4, StepLeaf 5, StepBinary ExprAnd]"
    "precompile (Binary ExprAnd (Leaf 7) (Leaf 5)) []
       = [StepLeaf 7, GateAnd 4, StepLeaf 5, StepBinary ExprAnd]"
    by (simp_all add: Expression_precompile_def ExprAnd_precompile_def pushStep_def
          assignField_def Let_def)
  have ev0: "PCode_apply example_engine (precompile (Leaf 0) []) 1 \<lparr> dataStack = [], m_seqId = 0 \<rparr>
      = Some ([0], Inr \<lparr> dataStack = [FLC_ITEM_INT 0],
                            m_seqId = length (precompile (Leaf 0) []) \<rparr>)"
    by (simp add: Expression_precompile_def ExprAnd_precompile_def pushStep_def
          assignField_def Let_def example_engine_def example_other_def)
  have ev1: "PCode_apply example_engine (precompile (Leaf 7) []) 1 \<lparr> dataStack = [], m_seqId = 0 \<rparr>
      = Some ([0], Inr \<lparr> dataStack = [FLC_ITEM_INT 7],
                            m_seqId = length (precompile (Leaf 7) []) \<rparr>)"
    by (simp add: Expression_precompile_def ExprAnd_precompile_def pushStep_def
          assignField_def Let_def example_engine_def example_other_def)
  have f0: "\<not> isTrue example_engine (FLC_ITEM_INT 0)"
    and t1: "isTrue example_engine (FLC_ITEM_INT 7)"
    by (simp_all add: example_engine_def example_isTrue_def)
  have evb: "PCode_apply example_engine (butlast (precompile (Binary ExprAnd (Leaf 7) (Leaf 5)) [])) 1
        \<lparr> dataStack = [], m_seqId = Suc (length (precompile (Leaf 7) [])) \<rparr>
      = Some ([2], Inr \<lparr> dataStack = [FLC_ITEM_INT 5],
                    m_seqId = length (precompile (Binary ExprAnd (Leaf 7) (Leaf 5)) []) - 1 \<rparr>)"
    by (simp add: Expression_precompile_def ExprAnd_precompile_def pushStep_def
          assignField_def Let_def example_engine_def example_other_def)
  have r0: "PCode_apply example_engine (precompile (Binary ExprAnd (Leaf 0) (Leaf 5)) []) 2
        \<lparr> dataStack = [], m_seqId = 0 \<rparr>
      = Some ([0, 1], Inr \<lparr> dataStack = [FLC_ITEM_BOOL False], m_seqId = 4 \<rparr>)"
    using and_short_circuit [where eng = example_engine and a = "Leaf 0" and b = "Leaf 5"
          and pre = "[]" and n = 1 and stk = "[]" and ta = "[0]" and v = "FLC_ITEM_INT 0"]
      ev0 f0 by (simp add: pre_simps fuel_Suc del: precompile.simps PCode_apply.simps)
  have t5: "isTrue example_engine (FLC_ITEM_INT 5)"
    by (simp add: example_engine_def example_isTrue_def)
  have r1: "PCode_apply example_engine (precompile (Binary ExprAnd (Leaf 7) (Leaf 5)) []) 4
        \<lparr> dataStack = [], m_seqId = 0 \<rparr>
      = Some ([0, 1, 2, 3], Inr \<lparr> dataStack = [FLC_ITEM_BOOL True], m_seqId = 4 \<rparr>)"
    using and_short_circuit [where eng = example_engine and a = "Leaf 7" and b = "Leaf 5"
          and pre = "[]" and n = 1 and stk = "[]" and ta = "[0]" and v = "FLC_ITEM_INT 7"
          and m = 1 and tb = "[2]" and w = "FLC_ITEM_INT 5"]
      ev1 t1 evb t5 by (simp add: pre_simps fuel_Suc del: precompile.simps PCode_apply.simps)
  show ?thesis
    using r0 r1
    by (simp add: pre_simps PCode_apply_numeral example_engine_def example_other_def
          example_isTrue_def ExprAnd_Gate_apply_def ExprAnd_apply_def setTop_def popData_def
          del: precompile.simps)
qed

section \<open>The ternary conditional\<close>

lemma forward_from_append:
  "forward_from k (xs @ ys) = (forward_from k xs \<and> forward_from (k + length xs) ys)"
  by (induction xs arbitrary: k) simp_all

lemma forward_from_nth:
  "forward_from k steps \<Longrightarrow> i < length steps \<Longrightarrow> jumps_forward (k + i) (steps ! i)"
proof (induction steps arbitrary: k i)
  case Nil
  then show ?case by simp
next
  case (Cons s steps)
  show ?case
  proof (cases i)
    case 0
    with Cons.prems show ?thesis by simp
  next
    case (Suc j)
    with Cons.prems have "jumps_forward (Suc k + j) (steps ! j)"
      by (intro Cons.IH) simp_all
    with Suc show ?thesis by simp
  qed
qed

lemma code_forward: "forward_from pos (code e pos)"
proof (induction e arbitrary: pos)
  case (Leaf n)
  show ?case by (simp add: jumps_forward_def)
next
  case (Unary op a)
  show ?case
    by (cases op) (simp_all add: Unary.IH forward_from_append jumps_forward_def)
next
  case (Binary op a b)
  show ?case
    by (cases op)
       (simp_all add: Binary.IH forward_from_append jumps_forward_def Let_def)
next
  case (Ternary op a b c)
  show ?case
    by (cases op)
       (simp add: Ternary.IH forward_from_append jumps_forward_def Let_def)
qed

lemma keeps_frame_other:
  "keeps_frame eng \<Longrightarrow> other_apply eng s ctx = Inr ctx' \<Longrightarrow> m_seqId ctx' = m_seqId ctx"
  unfolding keeps_frame_def by blast

lemma keeps_frame_class:
  "keeps_frame eng \<Longrightarrow> class_op eng op cls inst ctx = Inr ctx' \<Longrightarrow> m_seqId ctx' = m_seqId ctx"
  unfolding keeps_frame_def by blast

lemma seqId_setTop [simp]: "m_seqId (setTop v ctx) = m_seqId ctx"
  by (simp add: setTop_def)

lemma seqId_popData [simp]: "m_seqId (popData ctx) = m_seqId ctx"
  by (simp add: popData_def)

lemma ExprNot_apply_seqId:
  "ExprNot_apply eng ctx = Inr ctx' \<Longrightarrow> m_seqId ctx' = m_seqId ctx"
  by (auto simp: ExprNot_apply_def split: list.splits)

lemma ExprAnd_apply_seqId:
  "ExprAnd_apply eng ctx = Inr ctx' \<Longrightarrow> m_seqId ctx' = m_seqId ctx"
  by (auto simp: ExprAnd_apply_def split: list.splits)

lemma ExprOr_apply_seqId:
  "ExprOr_apply eng ctx = Inr ctx' \<Longrightarrow> m_seqId ctx' = m_seqId ctx"
  by (auto simp: ExprOr_apply_def split: list.splits)

lemma ExprEEQ_apply_seqId:
  "ExprEEQ_apply eng ctx = Inr ctx' \<Longrightarrow> m_seqId ctx' = m_seqId ctx"
  by (auto simp: ExprEEQ_apply_def split: list.splits)

lemma ExprNeg_apply_seqId:
  "keeps_frame eng \<Longrightarrow> ExprNeg_apply eng ctx = Inr ctx' \<Longrightarrow> m_seqId ctx' = m_seqId ctx"
  by (auto simp: ExprNeg_apply_def split: list.splits item.splits dest: keeps_frame_class)

lemma ExprPreInc_apply_seqId:
  "keeps_frame eng \<Longrightarrow> ExprPreInc_apply eng ctx = Inr ctx' \<Longrightarrow> m_seqId ctx' = m_seqId ctx"
  by (auto simp: ExprPreInc_apply_def split: list.splits item.splits dest: keeps_frame_class)

lemma ExprPreDec_apply_seqId:
  "keeps_frame eng \<Longrightarrow> ExprPreDec_apply eng ctx = Inr ctx' \<Longrightarrow> m_seqId ctx' = m_seqId ctx"
  by (auto simp: ExprPreDec_apply_def split: list.splits item.splits dest: keeps_frame_class)

lemma ExprPostInc_Gate_apply_seqId:
  "keeps_frame eng \<Longrightarrow> ExprPostInc_Gate_apply eng ctx = Inr ctx' \<Longrightarrow> m_seqId ctx' = m_seqId ctx"
  by (auto simp: ExprPostInc_Gate_apply_def split: list.splits item.splits dest: keeps_frame_class)

lemma ExprPostDec_Gate_apply_seqId:
  "keeps_frame eng \<Longrightarrow> ExprPostDec_Gate_apply eng ctx = Inr ctx' \<Longrightarrow> m_seqId ctx' = m_seqId ctx"
  by (auto simp: ExprPostDec_Gate_apply_def split: list.splits item.splits dest: keeps_frame_class)

lemma compare_result_seqId:
  "compare_result check r = Inr ctx' \<Longrightarrow> \<exists>c. r = Inr c \<and> m_seqId ctx' = m_seqId c"
  by (auto simp: compare_result_def split: sum.splits list.splits item.splits)

lemma generic_apply_seqId:
  assumes "keeps_frame eng" and "generic_apply cpr eng ctx = Inr ctx'"
  shows "m_seqId ctx' = m_seqId ctx"
proof (cases "dataStack ctx")
  case Nil
  with assms show ?thesis by (simp add: generic_apply_def)
next
  case (Cons op2 below)
  show ?thesis
  proof (cases below)
    case Nil
    with Cons assms show ?thesis by (simp add: generic_apply_def)
  next
    case (Cons op1 rest)
    show ?thesis
    proof (cases op1)
      case (FLC_ITEM_DEEP cls inst)
      with assms \<open>dataStack ctx = op2 # below\<close> Cons
      have "compare_result (cmpCheck cpr) (class_op eng op_compare cls inst ctx) = Inr ctx'"
        by (simp add: generic_apply_def)
      from compare_result_seqId [OF this] keeps_frame_class [OF assms(1)]
      show ?thesis by auto
    next
      case (FLC_ITEM_USER cls inst)
      with assms \<open>dataStack ctx = op2 # below\<close> Cons
      have "compare_result (\<lambda>v. cmpCheck cpr (if v <s 0 then 1 else 0))
              (class_op eng op_compare cls inst ctx) = Inr ctx'"
        by (simp add: generic_apply_def)
      from compare_result_seqId [OF this] keeps_frame_class [OF assms(1)]
      show ?thesis by auto
    qed (use assms \<open>dataStack ctx = op2 # below\<close> Cons in
          \<open>auto simp: generic_apply_def split: item.splits\<close>)
  qed
qed

lemma pstep_apply_forward:
  assumes keeps: "keeps_frame eng"
    and fwd: "jumps_forward k s"
    and at: "m_seqId ctx = Suc k"
    and ap: "pstep_apply eng s ctx = Inr ctx'"
  shows "k < m_seqId ctx'"
proof (cases s)
  case (StepLeaf n)
  with ap keeps_frame_other [OF keeps] at show ?thesis by auto
next
  case (StepUnary op)
  show ?thesis
  proof (cases op)
    case ExprNot
    with StepUnary ap at ExprNot_apply_seqId show ?thesis by fastforce
  next
    case ExprNeg
    with StepUnary ap at ExprNeg_apply_seqId [OF keeps] show ?thesis by fastforce
  next
    case ExprPreInc
    with StepUnary ap at ExprPreInc_apply_seqId [OF keeps] show ?thesis by fastforce
  next
    case ExprPreDec
    with StepUnary ap at ExprPreDec_apply_seqId [OF keeps] show ?thesis by fastforce
  next
    case ExprPostInc
    with StepUnary ap at show ?thesis by (simp add: ExprPostInc_apply_def)
  next
    case ExprPostDec
    with StepUnary ap at show ?thesis by (simp add: ExprPostDec_apply_def)
  qed (use StepUnary ap at keeps_frame_other [OF keeps] in \<open>auto\<close>)
next
  case (StepBinary op)
  show ?thesis
  proof (cases op)
    case ExprAnd
    with StepBinary ap at ExprAnd_apply_seqId show ?thesis by fastforce
  next
    case ExprOr
    with StepBinary ap at ExprOr_apply_seqId show ?thesis by fastforce
  next
    case ExprEEQ
    with StepBinary ap at ExprEEQ_apply_seqId show ?thesis by fastforce
  next
    case ExprAssign
    with StepBinary ap at keeps_frame_other [OF keeps] show ?thesis by auto
  next
    case ExprIndex
    with StepBinary ap at keeps_frame_other [OF keeps] show ?thesis by auto
  next
    case ExprStarIndex
    with StepBinary ap at keeps_frame_other [OF keeps] show ?thesis by auto
  qed (use StepBinary ap at generic_apply_seqId [OF keeps] in \<open>fastforce\<close>)+
next
  case (StepIIF t)
  with ap at fwd show ?thesis
    by (auto simp: ExprIIF_apply_def jumps_forward_def split: list.splits if_splits)
next
  case (GateAnd t)
  with ap at fwd show ?thesis
    by (auto simp: ExprAnd_Gate_apply_def jumps_forward_def split: list.splits if_splits)
next
  case (GateOr t)
  with ap at fwd show ?thesis
    by (auto simp: ExprOr_Gate_apply_def jumps_forward_def split: list.splits if_splits)
next
  case (GateIIF t)
  with ap at fwd show ?thesis
    by (auto simp: ExprIIF_Gate_apply_def jumps_forward_def)
next
  case GatePostInc
  with ap at ExprPostInc_Gate_apply_seqId [OF keeps] show ?thesis by fastforce
next
  case GatePostDec
  with ap at ExprPostDec_Gate_apply_seqId [OF keeps] show ?thesis by fastforce
qed

lemma PCode_apply_monotone:
  assumes keeps: "keeps_frame eng"
    and range: "\<And>k. lo \<le> k \<Longrightarrow> k < length pcode \<Longrightarrow> jumps_forward k (pcode ! k)"
  shows "PCode_apply eng pcode n ctx = Some (trace, r) \<Longrightarrow> lo \<le> m_seqId ctx
           \<Longrightarrow> k \<in> set trace \<Longrightarrow> lo \<le> k"
proof (induction n arbitrary: ctx trace)
  case 0
  then show ?case by (simp split: if_splits)
next
  case (Suc n)
  show ?case
  proof (cases "m_seqId ctx < length pcode")
    case False
    with Suc.prems show ?thesis by simp
  next
    case True
    let ?c = "ctx\<lparr> m_seqId := Suc (m_seqId ctx) \<rparr>"
    show ?thesis
    proof (cases "pstep_apply eng (pcode ! m_seqId ctx) ?c")
      case (Inl e)
      with True Suc.prems show ?thesis by auto
    next
      case (Inr ctx')
      with True Suc.prems obtain t where t: "PCode_apply eng pcode n ctx' = Some (t, r)"
        and tr: "trace = m_seqId ctx # t"
        by (auto split: option.splits)
      have "jumps_forward (m_seqId ctx) (pcode ! m_seqId ctx)"
        using range [OF Suc.prems(2) True] .
      from pstep_apply_forward [OF keeps this _ Inr]
      have "m_seqId ctx < m_seqId ctx'" by simp
      with Suc.prems(2) have lo': "lo \<le> m_seqId ctx'" by simp
      show ?thesis
      proof (cases "k = m_seqId ctx")
        case True
        with Suc.prems(2) show ?thesis by simp
      next
        case False
        with Suc.prems(3) tr have "k \<in> set t" by simp
        from Suc.IH [OF t lo' this] show ?thesis .
      qed
    qed
  qed
qed

lemma iif_layout:
  "precompile (Ternary ExprIIF a b c) pre
     = precompile a pre
         @ StepIIF (Suc (length (precompile b (pushStep (StepIIF 0) (precompile a pre)))))
         # emitted b (pushStep (StepIIF 0) (precompile a pre))
         @ GateIIF (length (precompile (Ternary ExprIIF a b c) pre))
         # code c (Suc (length (precompile b (pushStep (StepIIF 0) (precompile a pre)))))"
  by (simp add: precompile_code emitted_code Let_def pushStep_def add.assoc)

lemma iif_false_run:
  fixes eng :: "'f engine"
  assumes ev_a: "PCode_apply eng pa n start
      = Some (ta, Inr \<lparr> dataStack = v # stk, m_seqId = length pa \<rparr>)"
    and nv: "\<not> isTrue eng v"
    and ev_c: "PCode_apply eng (pa @ StepIIF f # rest) m \<lparr> dataStack = stk, m_seqId = f \<rparr>
      = Some (tc, r)"
  shows "PCode_apply eng (pa @ StepIIF f # rest) (n + Suc m) start
      = Some (ta @ length pa # tc, r)"
proof -
  have g1: "PCode_apply eng (pa @ StepIIF f # rest) (Suc m)
        \<lparr> dataStack = v # stk, m_seqId = length pa \<rparr>
      = Some (length pa # tc, r)"
    using nv ev_c by (simp add: ExprIIF_apply_def popData_def)
  show ?thesis
    by (rule PCode_apply_prefix [OF ev_a g1])
qed

lemma iif_true_run:
  fixes eng :: "'f engine"
  assumes ev_a: "PCode_apply eng pa n start
      = Some (ta, Inr \<lparr> dataStack = v # stk, m_seqId = length pa \<rparr>)"
    and tv: "isTrue eng v"
    and ev_b: "PCode_apply eng (pa @ StepIIF f # B) m \<lparr> dataStack = stk, m_seqId = Suc (length pa) \<rparr>
      = Some (tb, Inr \<lparr> dataStack = w # stk, m_seqId = Suc (length pa + length B) \<rparr>)"
    and past: "length (pa @ StepIIF f # B @ GateIIF e # C) \<le> e"
  shows "PCode_apply eng (pa @ StepIIF f # B @ GateIIF e # C) (n + 1 + m + 1) start
      = Some (ta @ length pa # tb @ [Suc (length pa + length B)],
              Inr \<lparr> dataStack = w # stk, m_seqId = e \<rparr>)"
proof -
  let ?pb = "pa @ StepIIF f # B"
  have g1: "PCode_apply eng ?pb (Suc m) \<lparr> dataStack = v # stk, m_seqId = length pa \<rparr>
      = Some (length pa # tb, Inr \<lparr> dataStack = w # stk, m_seqId = Suc (length pa + length B) \<rparr>)"
    using tv ev_b by (simp add: ExprIIF_apply_def popData_def)
  have upto: "PCode_apply eng ?pb (n + Suc m) start
      = Some (ta @ length pa # tb,
              Inr \<lparr> dataStack = w # stk, m_seqId = Suc (length pa + length B) \<rparr>)"
    by (rule PCode_apply_prefix [OF ev_a g1])
  have last: "PCode_apply eng (?pb @ GateIIF e # C) 1
        \<lparr> dataStack = w # stk, m_seqId = Suc (length pa + length B) \<rparr>
      = Some ([Suc (length pa + length B)], Inr \<lparr> dataStack = w # stk, m_seqId = e \<rparr>)"
    using past by (simp add: ExprIIF_Gate_apply_def nth_append)
  have "PCode_apply eng (?pb @ GateIIF e # C) ((n + Suc m) + 1) start
      = Some ((ta @ length pa # tb) @ [Suc (length pa + length B)],
              Inr \<lparr> dataStack = w # stk, m_seqId = e \<rparr>)"
    by (rule PCode_apply_prefix [OF upto last])
  then show ?thesis by (simp add: add.assoc)
qed

text \<open>
  C3. Let the sequence of \<open>a ? b : c\<close> be precompiled behind any sequence \<open>pre\<close>, and
  let the steps of \<open>a\<close> complete with the condition \<open>v\<close> on top of the stack. The step after them is that
  of the node, its jump field is the position of the first step of \<open>c\<close>; the steps of
  \<open>b\<close> follow, then the gate, whose jump field is the length of the sequence, then the
  steps of \<open>c\<close>. The node pops \<open>v\<close>. If \<open>v\<close> is false the run goes on at the first
  step of \<open>c\<close>, and when \<open>c\<close> completes with \<open>w\<close> so does the whole run; no step of
  \<open>b\<close> nor the gate is applied, as long as the handlers of the engine leave the
  sequence id alone. If \<open>v\<close> is true the steps of \<open>b\<close> run, and
  when they complete with \<open>w\<close> the gate jumps to the end: no step of \<open>c\<close> is
  applied. Either way \<open>w\<close> is the one value left on top of the initial stack.
\<close>

theorem iif_one_branch:
  fixes eng :: "'f engine" and a b c :: expr and pre :: pcode
    and stk :: "'f item list"
    and pa pb pcode :: pcode and cond false_pos gate end_pos :: nat and start :: "'f vmcontext"
  defines "pa \<equiv> precompile a pre"
    and "pb \<equiv> precompile b (pushStep (StepIIF 0) pa)"
    and "pcode \<equiv> precompile (Ternary ExprIIF a b c) pre"
    and "cond \<equiv> length pa"
    and "gate \<equiv> length pb"
    and "false_pos \<equiv> Suc (length pb)"
    and "end_pos \<equiv> length pcode"
    and "start \<equiv> \<lparr> dataStack = stk, m_seqId = length pre \<rparr>"
  assumes ev_a: "PCode_apply eng pa n start
                 = Some (ta, Inr \<lparr> dataStack = v # stk, m_seqId = cond \<rparr>)"
  shows "pcode ! cond = StepIIF false_pos
    \<and> pcode ! gate = GateIIF end_pos
    \<and> cond < gate \<and> false_pos \<le> end_pos
    \<and> take (gate - Suc cond) (drop (Suc cond) pcode) = emitted b (pushStep (StepIIF 0) pa)
    \<and> drop false_pos pcode = emitted c (pushStep (GateIIF 0) pb)
    \<and> (\<not> isTrue eng v \<longrightarrow>
          PCode_apply eng pcode m \<lparr> dataStack = stk, m_seqId = false_pos \<rparr>
            = Some (tc, Inr \<lparr> dataStack = w # stk, m_seqId = end_pos \<rparr>) \<longrightarrow>
          PCode_apply eng pcode (n + 1 + m) start
            = Some (ta @ cond # tc, Inr \<lparr> dataStack = w # stk, m_seqId = end_pos \<rparr>)
          \<and> (keeps_frame eng \<longrightarrow>
                (\<forall>k \<in> set (ta @ cond # tc). k \<le> cond \<or> false_pos \<le> k)))
    \<and> (isTrue eng v \<longrightarrow>
          PCode_apply eng (take gate pcode) m \<lparr> dataStack = stk, m_seqId = Suc cond \<rparr>
            = Some (tb, Inr \<lparr> dataStack = w # stk, m_seqId = gate \<rparr>) \<longrightarrow>
          PCode_apply eng pcode (n + 1 + m + 1) start
            = Some (ta @ cond # tb @ [gate], Inr \<lparr> dataStack = w # stk, m_seqId = end_pos \<rparr>)
          \<and> (\<forall>k \<in> set (ta @ cond # tb @ [gate]). k < false_pos))"
proof -
  define B where "B = emitted b (pushStep (StepIIF 0) pa)"
  define C where "C = code c false_pos"
  have pb: "pb = pa @ StepIIF 0 # B"
    unfolding pb_def B_def by (simp add: precompile_code emitted_code pushStep_def)
  have gate: "gate = Suc (length pa + length B)"
    unfolding gate_def pb by simp
  have fpos: "false_pos = Suc (Suc (length pa + length B))"
    unfolding false_pos_def pb by simp
  have lay: "pcode = pa @ StepIIF false_pos # B @ GateIIF end_pos # C"
    unfolding pcode_def pa_def pb_def false_pos_def end_pos_def B_def C_def
    by (rule iif_layout)
  have len: "length pcode = false_pos + length C"
    unfolding fpos by (subst lay) simp
  have emc: "emitted c (pushStep (GateIIF 0) pb) = C"
    unfolding C_def false_pos_def by (simp add: emitted_code pushStep_def)
  have n1: "pcode ! cond = StepIIF false_pos"
    unfolding cond_def by (subst lay) (simp only: nth_append_length)
  have n2: "pcode ! gate = GateIIF end_pos"
    unfolding gate by (subst lay) (simp add: nth_append)
  have o1: "cond < gate" unfolding cond_def gate by simp
  have o2: "false_pos \<le> end_pos" unfolding end_pos_def len by simp
  have tkb: "take (gate - Suc cond) (drop (Suc cond) pcode) = B"
    unfolding cond_def gate by (subst lay) simp
  have drc: "drop false_pos pcode = C"
    unfolding fpos by (subst lay) simp
  have tkg: "take (Suc (length pa + length B)) pcode = pa @ StepIIF false_pos # B"
    by (subst lay) simp
  have eva: "PCode_apply eng pa n start
               = Some (ta, Inr \<lparr> dataStack = v # stk, m_seqId = length pa \<rparr>)"
    using ev_a unfolding cond_def .
  have ta_bound: "k < cond" if "k \<in> set ta" for k
    using PCode_apply_trace_bound [OF eva that] unfolding cond_def .
  have fwd: "jumps_forward k (pcode ! k)" if "false_pos \<le> k" "k < length pcode" for k
  proof -
    from that len have i: "k - false_pos < length C" by simp
    have "forward_from false_pos C" unfolding C_def by (rule code_forward)
    from forward_from_nth [OF this i] that(1)
    have "jumps_forward k (C ! (k - false_pos))" by simp
    moreover have "drop false_pos pcode ! (k - false_pos) = pcode ! (false_pos + (k - false_pos))"
      using len by (intro nth_drop) simp
    then have "pcode ! k = C ! (k - false_pos)"
      using that(1) drc by simp
    ultimately show ?thesis by simp
  qed
  have false_case: "PCode_apply eng pcode (n + 1 + m) start
            = Some (ta @ cond # tc, Inr \<lparr> dataStack = w # stk, m_seqId = end_pos \<rparr>)
          \<and> (keeps_frame eng \<longrightarrow>
                (\<forall>k \<in> set (ta @ cond # tc). k \<le> cond \<or> false_pos \<le> k))"
    if nv: "\<not> isTrue eng v"
      and ev_c: "PCode_apply eng pcode m \<lparr> dataStack = stk, m_seqId = false_pos \<rparr>
            = Some (tc, Inr \<lparr> dataStack = w # stk, m_seqId = end_pos \<rparr>)"
  proof
    have evc: "PCode_apply eng (pa @ StepIIF false_pos # B @ GateIIF end_pos # C) m
          \<lparr> dataStack = stk, m_seqId = false_pos \<rparr>
        = Some (tc, Inr \<lparr> dataStack = w # stk, m_seqId = end_pos \<rparr>)"
      using ev_c lay by simp
    from iif_false_run [OF eva nv evc] lay
    show "PCode_apply eng pcode (n + 1 + m) start
            = Some (ta @ cond # tc, Inr \<lparr> dataStack = w # stk, m_seqId = end_pos \<rparr>)"
      unfolding cond_def by simp
    show "keeps_frame eng \<longrightarrow>
            (\<forall>k \<in> set (ta @ cond # tc). k \<le> cond \<or> false_pos \<le> k)"
    proof
      assume keeps: "keeps_frame eng"
      have "false_pos \<le> k" if "k \<in> set tc" for k
        by (rule PCode_apply_monotone [OF keeps fwd ev_c _ that]) simp_all
      with ta_bound show "\<forall>k \<in> set (ta @ cond # tc). k \<le> cond \<or> false_pos \<le> k"
        by (auto simp: less_imp_le)
    qed
  qed
  have true_case: "PCode_apply eng pcode (n + 1 + m + 1) start
            = Some (ta @ cond # tb @ [gate], Inr \<lparr> dataStack = w # stk, m_seqId = end_pos \<rparr>)
          \<and> (\<forall>k \<in> set (ta @ cond # tb @ [gate]). k < false_pos)"
    if tv: "isTrue eng v"
      and ev_b: "PCode_apply eng (take gate pcode) m \<lparr> dataStack = stk, m_seqId = Suc cond \<rparr>
            = Some (tb, Inr \<lparr> dataStack = w # stk, m_seqId = gate \<rparr>)"
  proof
    have evb: "PCode_apply eng (pa @ StepIIF false_pos # B) m
          \<lparr> dataStack = stk, m_seqId = Suc (length pa) \<rparr>
        = Some (tb, Inr \<lparr> dataStack = w # stk, m_seqId = Suc (length pa + length B) \<rparr>)"
      using ev_b unfolding cond_def gate tkg .
    have past: "length (pa @ StepIIF false_pos # B @ GateIIF end_pos # C) \<le> end_pos"
      unfolding end_pos_def using lay by simp
    from iif_true_run [OF eva tv evb past] lay
    show "PCode_apply eng pcode (n + 1 + m + 1) start
            = Some (ta @ cond # tb @ [gate], Inr \<lparr> dataStack = w # stk, m_seqId = end_pos \<rparr>)"
      unfolding cond_def gate by simp
    have "k < gate" if "k \<in> set tb" for k
      using PCode_apply_trace_bound [OF ev_b that] by simp
    with ta_bound o1 show "\<forall>k \<in> set (ta @ cond # tb @ [gate]). k < false_pos"
      unfolding false_pos_def gate_def by fastforce
  qed
  show ?thesis
    using n1 n2 o1 o2 tkb drc false_case true_case unfolding B_def emc by blast
qed

lemma keeps_frame_example: "keeps_frame example_engine"
  by (auto simp: keeps_frame_def example_engine_def example_other_def split: pstep.splits)

theorem iif_one_branch_witness:
  "keeps_frame example_engine
   \<and> precompile (Ternary ExprIIF (Leaf 0) (Leaf 5) (Leaf 6)) []
        = [StepLeaf 0, StepIIF 4, StepLeaf 5, GateIIF 5, StepLeaf 6]
   \<and> PCode_apply example_engine (precompile (Leaf 0) []) 1 \<lparr> dataStack = [], m_seqId = 0 \<rparr>
        = Some ([0], Inr \<lparr> dataStack = [FLC_ITEM_INT 0], m_seqId = 1 \<rparr>)
   \<and> \<not> isTrue example_engine (FLC_ITEM_INT 0)
   \<and> PCode_apply example_engine (precompile (Ternary ExprIIF (Leaf 0) (Leaf 5) (Leaf 6)) []) 1
          \<lparr> dataStack = [], m_seqId = 4 \<rparr>
        = Some ([4], Inr \<lparr> dataStack = [FLC_ITEM_INT 6], m_seqId = 5 \<rparr>)
   \<and> PCode_apply example_engine (precompile (Ternary ExprIIF (Leaf 0) (Leaf 5) (Leaf 6)) []) 3
          \<lparr> dataStack = [], m_seqId = 0 \<rparr>
        = Some ([0, 1, 4], Inr \<lparr> dataStack = [FLC_ITEM_INT 6], m_seqId = 5 \<rparr>)
   \<and> PCode_apply example_engine (precompile (Leaf 7) []) 1 \<lparr> dataStack = [], m_seqId = 0 \<rparr>
        = Some ([0], Inr \<lparr> dataStack = [FLC_ITEM_INT 7], m_seqId = 1 \<rparr>)
   \<and> isTrue example_engine (FLC_ITEM_INT 7)
   \<and> PCode_apply example_engine
          (take 3 (precompile (Ternary ExprIIF (Leaf 7) (Leaf 5) (Leaf 6)) [])) 1
          \<lparr> dataStack = [], m_seqId = 2 \<rparr>
        = Some ([2], Inr \<lparr> dataStack = [FLC_ITEM_INT 5], m_seqId = 3 \<rparr>)
   \<and> PCode_apply example_engine (precompile (Ternary ExprIIF (Leaf 7) (Leaf 5) (Leaf 6)) []) 4
          \<lparr> dataStack = [], m_seqId = 0 \<rparr>
        = Some ([0, 1, 2, 3], Inr \<lparr> dataStack = [FLC_ITEM_INT 5], m_seqId = 5 \<rparr>)"
proof -
  have pre_simps: "precompile (Leaf 0) [] = [StepLeaf 0]" "precompile (Leaf 7) [] = [StepLeaf 7]"
    "precompile (Leaf 5) (pushStep (StepIIF 0) [StepLeaf 0]) = [StepLeaf 0, StepIIF 0, StepLeaf 5]"
    "precompile (Leaf 5) (pushStep (StepIIF 0) [StepLeaf 7]) = [StepLeaf 7, StepIIF 0, StepLeaf 5]"
    "precompile (Ternary ExprIIF (Leaf 0) (Leaf 5) (Leaf 6)) []
       = [StepLeaf 0, StepIIF 4, StepLeaf 5, GateIIF 5, StepLeaf 6]"
    "precompile (Ternary ExprIIF (Leaf 7) (Leaf 5) (Leaf 6)) []
       = [StepLeaf 7, StepIIF 4, StepLeaf 5, GateIIF 5, StepLeaf 6]"
    by (simp_all add: Expression_precompile_def ExprIIF_precompile_def pushStep_def
          assignField_def Let_def)
  note ev = PCode_apply_numeral example_engine_def example_other_def example_isTrue_def
    ExprIIF_apply_def ExprIIF_Gate_apply_def popData_def
  have ev0: "PCode_apply example_engine (precompile (Leaf 0) []) 1 \<lparr> dataStack = [], m_seqId = length ([] :: pcode) \<rparr>
      = Some ([0], Inr \<lparr> dataStack = [FLC_ITEM_INT 0],
                            m_seqId = length (precompile (Leaf 0) []) \<rparr>)"
    by (simp add: pre_simps ev del: precompile.simps)
  have ev7: "PCode_apply example_engine (precompile (Leaf 7) []) 1 \<lparr> dataStack = [], m_seqId = length ([] :: pcode) \<rparr>
      = Some ([0], Inr \<lparr> dataStack = [FLC_ITEM_INT 7],
                            m_seqId = length (precompile (Leaf 7) []) \<rparr>)"
    by (simp add: pre_simps ev del: precompile.simps)
  have f0: "\<not> isTrue example_engine (FLC_ITEM_INT 0)"
    and t7: "isTrue example_engine (FLC_ITEM_INT 7)"
    by (simp_all add: example_engine_def example_isTrue_def)
  have evc: "PCode_apply example_engine (precompile (Ternary ExprIIF (Leaf 0) (Leaf 5) (Leaf 6)) []) 1
        \<lparr> dataStack = [],
          m_seqId = Suc (length (precompile (Leaf 5) (pushStep (StepIIF 0) (precompile (Leaf 0) [])))) \<rparr>
      = Some ([4], Inr \<lparr> dataStack = [FLC_ITEM_INT 6],
            m_seqId = length (precompile (Ternary ExprIIF (Leaf 0) (Leaf 5) (Leaf 6)) []) \<rparr>)"
    by (simp add: pre_simps ev del: precompile.simps)
  have evb: "PCode_apply example_engine
        (take (length (precompile (Leaf 5) (pushStep (StepIIF 0) (precompile (Leaf 7) []))))
           (precompile (Ternary ExprIIF (Leaf 7) (Leaf 5) (Leaf 6)) [])) 1
        \<lparr> dataStack = [], m_seqId = Suc (length (precompile (Leaf 7) [])) \<rparr>
      = Some ([2], Inr \<lparr> dataStack = [FLC_ITEM_INT 5],
            m_seqId = length (precompile (Leaf 5) (pushStep (StepIIF 0) (precompile (Leaf 7) []))) \<rparr>)"
    by (simp add: pre_simps ev del: precompile.simps)
  have r0: "PCode_apply example_engine (precompile (Ternary ExprIIF (Leaf 0) (Leaf 5) (Leaf 6)) []) 3
        \<lparr> dataStack = [], m_seqId = 0 \<rparr>
      = Some ([0, 1, 4], Inr \<lparr> dataStack = [FLC_ITEM_INT 6], m_seqId = 5 \<rparr>)"
    using iif_one_branch [OF ev0, where b = "Leaf 5" and c = "Leaf 6"
            and m = 1 and tc = "[4]" and w = "FLC_ITEM_INT 6"] f0 evc
    by (simp add: fuel_Suc emitted_def Expression_precompile_def ExprIIF_precompile_def
          pushStep_def assignField_def Let_def del: PCode_apply.simps)
  have r7: "PCode_apply example_engine (precompile (Ternary ExprIIF (Leaf 7) (Leaf 5) (Leaf 6)) []) 4
        \<lparr> dataStack = [], m_seqId = 0 \<rparr>
      = Some ([0, 1, 2, 3], Inr \<lparr> dataStack = [FLC_ITEM_INT 5], m_seqId = 5 \<rparr>)"
    using iif_one_branch [OF ev7, where b = "Leaf 5" and c = "Leaf 6"
            and m = 1 and tb = "[2]" and w = "FLC_ITEM_INT 5"] t7 evb
    by (simp add: fuel_Suc emitted_def Expression_precompile_def ExprIIF_precompile_def
          pushStep_def assignField_def Let_def del: PCode_apply.simps)
  show ?thesis
    using r0 r7 keeps_frame_example
    by (simp add: pre_simps ev del: precompile.simps)
qed

section \<open>Where the code departs from its description\<close>

text \<open>
  C9. \<open>TernaryExpression::serialize\<close> writes the third child, the second, the first;
  \<open>TernaryExpression::deserialize\<close> reads the first, the second, the third. Reading
  back what was written for a node with the children 1, 2 and 3 gives a node whose
  first child is 3 and whose third child is 1. A binary node, written and read first
  child first, comes back as it was.
\<close>

theorem ternary_roundtrip_swaps:
  "read_ternary example_factory 0
     (TernaryExpression_serialize example_serialize
        \<lparr> m_operator = 9, m_sourceRef = 4, m_first = 1, m_second = 2, m_third = 3 \<rparr> [])
   = Some (\<lparr> m_operator = 9, m_sourceRef = 4, m_first = 3, m_second = 2, m_third = 1 \<rparr>, [])
   \<and> BinaryExpression_deserialize example_factory
       \<lparr> m_operator = 9, m_sourceRef = 0, b_first = 0, b_second = 0 \<rparr>
       (tl (BinaryExpression_serialize example_serialize
          \<lparr> m_operator = 9, m_sourceRef = 4, b_first = 1, b_second = 2 \<rparr> []))
   = Some (\<lparr> m_operator = 9, m_sourceRef = 4, b_first = 1, b_second = 2 \<rparr>, [])"
  by (simp add: read_ternary_def TernaryExpression_serialize_def TernaryExpression_deserialize_def
        BinaryExpression_serialize_def BinaryExpression_deserialize_def
        Expression_serialize_def Expression_deserialize_def example_serialize_def
        example_factory_def)

lemma floor_three_halves: "\<lfloor>3 / 2 :: rat\<rfloor> = 1"
  by (rule floor_unique) simp_all

text \<open>
  C5. For an integer and a numeric operand \<open>generic_apply_\<close> calls \<open>pass\<close>, the test on
  integers, so the numeric operand is converted to \<open>int64\<close>; \<open>generic_simplify\<close> calls
  \<open>passn\<close>, the test on numerics, with the integer promoted. With the comparer of \<open><\<close>,
  the step answers false for \<open>1 < 1.5\<close> where the simplification answers true.
\<close>

theorem generic_apply_mixed_truncates:
  "generic_apply cpr eng (ctx\<lparr> dataStack := FLC_ITEM_NUM y # FLC_ITEM_INT i # rest \<rparr>)
     = Inr (ctx\<lparr> dataStack := FLC_ITEM_BOOL (pass cpr i (num_to_int eng y)) # rest \<rparr>)
   \<and> generic_apply cpr eng (ctx\<lparr> dataStack := FLC_ITEM_INT i # FLC_ITEM_NUM y # rest \<rparr>)
     = Inr (ctx\<lparr> dataStack := FLC_ITEM_BOOL (pass cpr (num_to_int eng y) i) # rest \<rparr>)
   \<and> generic_simplify cpr eng (Some (FLC_ITEM_INT i)) (Some (FLC_ITEM_NUM y))
     = Some (FLC_ITEM_BOOL (passn cpr (num_of_int eng i) y))
   \<and> generic_apply (comparer example_engine ExprLT) example_engine
       \<lparr> dataStack = [FLC_ITEM_NUM (3 / 2), FLC_ITEM_INT 1], m_seqId = 0 \<rparr>
     = Inr \<lparr> dataStack = [FLC_ITEM_BOOL False], m_seqId = 0 \<rparr>
   \<and> generic_simplify (comparer example_engine ExprLT) example_engine
       (Some (FLC_ITEM_INT 1)) (Some (FLC_ITEM_NUM (3 / 2)))
     = Some (FLC_ITEM_BOOL True)"
  by (simp add: generic_apply_def generic_simplify_def example_engine_def example_comparer_def
        word_sless_alt floor_three_halves)

section \<open>Properties of the pool\<close>

lemma unat_inc_below:
  fixes x y :: "32 word"
  assumes "x < y"
  shows "unat (x + 1) = Suc (unat x)"
proof -
  from assms have "unat x < unat y" by (simp add: word_less_nat_alt)
  moreover have "unat y < 2 ^ 32" using unsigned_less [of y] by simp
  ultimately have "unat x + unat (1::32 word) < 2 ^ LENGTH(32)" by simp
  then have "unat (x + 1) = unat x + unat (1::32 word)"
    by (simp only: unat_add_lem [THEN iffD1])
  then show ?thesis by simp
qed

lemma free_list_chain: "free_list nxt h xs \<Longrightarrow> chain nxt h (length xs) = xs"
  by (induction xs arbitrary: h) simp_all

lemma free_list_update:
  "x \<notin> set xs \<Longrightarrow> free_list (nxt(x := y)) h xs = free_list nxt h xs"
  by (induction xs arbitrary: h) auto

lemma pool_invI:
  assumes "free_list (m_next p) (m_head p) xs" and "distinct xs"
    and "length xs = unat (m_size p)" and "m_size p \<le> m_maxSize p"
  shows "pool_inv p \<and> pooled p = xs"
proof -
  have "pooled p = xs"
    unfolding pooled_def using free_list_chain [OF assms(1)] assms(3) by simp
  with assms show ?thesis by (simp add: pool_inv_def)
qed

lemma pool_inv_new: "pool_inv (Pool nxt n) \<and> pooled (Pool nxt n) = []"
  by (rule pool_invI) (simp_all add: Pool_def)

lemma pool_inv_release:
  assumes inv: "pool_inv p" and nz: "x \<noteq> 0" and new: "x \<notin> set (pooled p)"
  shows "pool_inv (fst (release p x))
         \<and> pooled (fst (release p x)) = (if m_size p < m_maxSize p then x # pooled p else pooled p)"
proof (cases "m_size p < m_maxSize p")
  case False
  with inv show ?thesis by (simp add: release_def)
next
  case True
  let ?q = "p\<lparr> m_size := m_size p + 1, m_next := (m_next p)(x := m_head p), m_head := x \<rparr>"
  have rel: "release p x = (?q, [])" using True by (simp add: release_def)
  have "free_list (m_next ?q) (m_head ?q) (x # pooled p)"
    using inv nz new by (simp add: pool_inv_def free_list_update)
  moreover have "distinct (x # pooled p)" using inv new by (simp add: pool_inv_def)
  moreover have "length (x # pooled p) = unat (m_size ?q)"
    using inv True by (simp add: pool_inv_def unat_inc_below)
  moreover have "m_size ?q \<le> m_maxSize ?q" using True by (simp add: inc_le)
  ultimately have "pool_inv ?q \<and> pooled ?q = x # pooled p" by (rule pool_invI)
  with rel True show ?thesis by simp
qed

lemma pool_inv_get:
  assumes inv: "pool_inv p"
  shows "pool_inv (fst (get p)) \<and> pooled (fst (get p)) = tl (pooled p)
         \<and> snd (get p) = (case pooled p of [] \<Rightarrow> 0 | x # _ \<Rightarrow> x)"
proof (cases "pooled p")
  case Nil
  with inv have "m_head p = 0" by (simp add: pool_inv_def)
  with inv Nil show ?thesis by (simp add: get_def)
next
  case (Cons x rest)
  with inv have h: "m_head p = x" "x \<noteq> 0" and fl: "free_list (m_next p) (m_next p x) rest"
    and d: "distinct rest" and len: "Suc (length rest) = unat (m_size p)"
    and le: "m_size p \<le> m_maxSize p"
    by (simp_all add: pool_inv_def)
  let ?q = "p\<lparr> m_head := m_next p (m_head p), m_size := m_size p - 1 \<rparr>"
  have g: "get p = (?q, x)" using h by (simp add: get_def)
  from len have nz: "m_size p \<noteq> 0" by (auto simp: unat_eq_zero [symmetric] simp del: unat_eq_zero)
  then have u: "unat (m_size p - 1) = unat (m_size p) - 1" by (rule unat_minus_one)
  have "m_size p - 1 \<le> m_size p" using nz by (simp add: word_le_nat_alt unat_minus_one)
  with le have le': "m_size ?q \<le> m_maxSize ?q" by simp
  have "free_list (m_next ?q) (m_head ?q) rest" using fl h by simp
  moreover note d
  moreover have "length rest = unat (m_size ?q)" using len u by simp
  moreover note le'
  ultimately have "pool_inv ?q \<and> pooled ?q = rest" by (rule pool_invI)
  with g Cons show ?thesis by simp
qed

lemma clear_loop_null: "m_head p = 0 \<Longrightarrow> clear_loop p deleted = Some (p, deleted)"
  by (subst clear_loop.simps) simp

lemma clear_loop_step:
  "m_head p \<noteq> 0
     \<Longrightarrow> clear_loop p deleted
           = clear_loop (p\<lparr> m_head := m_next p (m_head p) \<rparr>) (deleted @ [m_head p])"
  by (subst clear_loop.simps) simp

lemma chain_numeral:
  "chain nxt h (numeral k) = (if h = 0 then [] else h # chain nxt (nxt h) (pred_numeral k))"
  by (simp add: numeral_eq_Suc)

lemma clear_loop_free_list:
  "free_list (m_next p) (m_head p) xs
     \<Longrightarrow> clear_loop p deleted = Some (p\<lparr> m_head := 0 \<rparr>, deleted @ xs)"
proof (induction xs arbitrary: p deleted)
  case Nil
  then have "m_head p = 0" by simp
  then have "p\<lparr> m_head := 0 \<rparr> = p" by simp
  with \<open>m_head p = 0\<close> show ?case by (subst clear_loop.simps) simp
next
  case (Cons x xs)
  then have h: "m_head p = x" "x \<noteq> 0" and fl: "free_list (m_next p) (m_next p x) xs"
    by simp_all
  let ?q = "p\<lparr> m_head := m_next p (m_head p) \<rparr>"
  have "free_list (m_next ?q) (m_head ?q) xs" using fl h by simp
  from Cons.IH [OF this, of "deleted @ [m_head p]"] h
  show ?case by (subst clear_loop.simps) simp
qed

lemma pool_inv_clear:
  assumes inv: "pool_inv p"
  shows "clear p = Some (p\<lparr> m_head := 0, m_size := 0 \<rparr>, pooled p)
         \<and> pool_inv (p\<lparr> m_head := 0, m_size := 0 \<rparr>)
         \<and> pooled (p\<lparr> m_head := 0, m_size := 0 \<rparr>) = []"
proof -
  from inv have "free_list (m_next p) (m_head p) (pooled p)" by (simp add: pool_inv_def)
  from clear_loop_free_list [OF this, of "[]"]
  have "clear p = Some (p\<lparr> m_head := 0, m_size := 0 \<rparr>, pooled p)"
    by (simp add: clear_def)
  moreover have "pool_inv (p\<lparr> m_head := 0, m_size := 0 \<rparr>)
                 \<and> pooled (p\<lparr> m_head := 0, m_size := 0 \<rparr>) = []"
    by (rule pool_invI) simp_all
  ultimately show ?thesis by simp
qed

lemma maxSize_release: "m_maxSize (fst (release p x)) = m_maxSize p"
  by (simp add: release_def)

lemma maxSize_get: "m_maxSize (fst (get p)) = m_maxSize p"
  by (simp add: get_def)

lemma pool_inv_call:
  assumes "pool_inv p" and "releasable p c"
  shows "\<exists>q. pool_call p c = Some q \<and> pool_inv q \<and> m_maxSize q = m_maxSize p"
proof (cases c)
  case OpGet
  with assms show ?thesis by (simp add: pool_inv_get maxSize_get)
next
  case (OpRelease x)
  with assms show ?thesis by (simp add: pool_inv_release maxSize_release)
next
  case OpClear
  with pool_inv_clear [OF assms(1)] show ?thesis by simp
qed

lemma pool_inv_calls:
  "pool_inv p \<Longrightarrow> proper p cs
     \<Longrightarrow> \<exists>q. pool_calls p cs = Some q \<and> pool_inv q \<and> m_maxSize q = m_maxSize p"
proof (induction cs arbitrary: p)
  case Nil
  then show ?case by simp
next
  case (Cons c cs)
  from Cons.prems have rel: "releasable p c" by simp
  from pool_inv_call [OF Cons.prems(1) rel]
  obtain q where q: "pool_call p c = Some q" "pool_inv q" "m_maxSize q = m_maxSize p" by blast
  with Cons.prems have "proper q cs" by simp
  from Cons.IH [OF q(2) this] q show ?case by simp
qed

lemma release_all_shape:
  assumes "pool_inv p" and "distinct xs" and "0 \<notin> set xs" and "set xs \<inter> set (pooled p) = {}"
  shows "\<exists>q. release_all p xs = (q, drop (unat (m_maxSize p) - unat (m_size p)) xs)
             \<and> pool_inv q \<and> m_maxSize q = m_maxSize p
             \<and> pooled q = rev (take (unat (m_maxSize p) - unat (m_size p)) xs) @ pooled p"
  using assms
proof (induction xs arbitrary: p)
  case Nil
  then show ?case by simp
next
  case (Cons x xs)
  from Cons.prems have nz: "x \<noteq> 0" and new: "x \<notin> set (pooled p)" by auto
  note r = pool_inv_release [OF Cons.prems(1) nz new]
  show ?case
  proof (cases "m_size p < m_maxSize p")
    case True
    let ?q = "fst (release p x)"
    have inv: "pool_inv ?q" and pq: "pooled ?q = x # pooled p" using r True by simp_all
    have mx: "m_maxSize ?q = m_maxSize p" by (rule maxSize_release)
    have sz: "unat (m_size ?q) = Suc (unat (m_size p))"
      using True by (simp add: release_def unat_inc_below)
    have lt: "unat (m_size p) < unat (m_maxSize p)" using True by (simp add: word_less_nat_alt)
    have disj: "set xs \<inter> set (pooled ?q) = {}" using Cons.prems pq by auto
    from Cons.prems have "distinct xs" "0 \<notin> set xs" by simp_all
    from Cons.IH [OF inv this disj] obtain q'
      where q': "release_all ?q xs = (q', drop (unat (m_maxSize ?q) - unat (m_size ?q)) xs)"
        "pool_inv q'" "m_maxSize q' = m_maxSize ?q"
        "pooled q' = rev (take (unat (m_maxSize ?q) - unat (m_size ?q)) xs) @ pooled ?q"
      by blast
    from lt obtain k where k: "unat (m_maxSize p) - unat (m_size p) = Suc k"
      by (cases "unat (m_maxSize p) - unat (m_size p)") simp_all
    then have k': "unat (m_maxSize ?q) - unat (m_size ?q) = k" using mx sz by simp
    from q'(1) k' have ra: "release_all ?q xs = (q', drop k xs)" by simp
    have "snd (release p x) = []" using True by (simp add: release_def)
    then have "release_all p (x # xs) = (q', drop k xs)"
      by (simp add: case_prod_beta ra)
    with q' k k' mx pq show ?thesis by simp
  next
    case False
    then have ge: "unat (m_maxSize p) - unat (m_size p) = 0"
      by (simp add: word_less_nat_alt)
    have rel: "release p x = (p, [x])" using False by (simp add: release_def)
    from Cons.prems have "distinct xs" "0 \<notin> set xs" "set xs \<inter> set (pooled p) = {}" by auto
    from Cons.IH [OF Cons.prems(1) this] ge obtain q'
      where q': "release_all p xs = (q', xs)" "pool_inv q'" "m_maxSize q' = m_maxSize p"
        "pooled q' = pooled p"
      by auto
    with rel ge show ?thesis by simp
  qed
qed

text \<open>
  What the condition on the client is for: an object released twice is its own
  successor in the free list, every \<open>get\<close> hands it out again, and the counter
  passes through 0 to the largest \<open>uint32\<close>.
\<close>

lemma double_release_exceeds:
  "map_option m_size (pool_calls (Pool (\<lambda>_. 0) 2) [OpRelease 5, OpRelease 5, OpGet, OpGet, OpGet])
     = Some 4294967295
   \<and> \<not> proper (Pool (\<lambda>_. 0) 2) [OpRelease 5, OpRelease 5, OpGet, OpGet, OpGet]"
  by (simp add: Pool_def release_def get_def pooled_def)

text \<open>
  C7. \<open>release\<close> keeps the object, as the new head of the free list and with the size
  one larger, exactly when the size is strictly below \<open>m_maxSize\<close>, and deletes it
  otherwise. Releasing \<open>maxSize + 1\<close> different objects into a new pool keeps the first
  \<open>maxSize\<close> of them and deletes the last one. Whatever a client calls, releasing only
  objects that are not in the pool already, every call returns and the size stays at
  most \<open>maxSize\<close> and is the number of objects in the free list.
\<close>

theorem pool_release_bounded:
  "(m_size p < m_maxSize p \<longrightarrow>
      release p d = (p\<lparr> m_size := m_size p + 1,
                        m_next := (m_next p)(d := m_head p),
                        m_head := d \<rparr>, []))
   \<and> (\<not> m_size p < m_maxSize p \<longrightarrow> release p d = (p, [d]))
   \<and> (pool_inv p \<and> d \<noteq> 0 \<and> d \<notin> set (pooled p) \<and> m_size p < m_maxSize p \<longrightarrow>
        pooled (fst (release p d)) = d # pooled p)
   \<and> (distinct xs \<and> 0 \<notin> set xs \<and> length xs = unat maxSize + 1 \<longrightarrow>
        (\<exists>q. release_all (Pool nxt maxSize) xs = (q, [last xs])
             \<and> pooled q = rev (butlast xs) \<and> m_size q = maxSize))
   \<and> (proper (Pool nxt maxSize) cs \<longrightarrow>
        (\<exists>q. pool_calls (Pool nxt maxSize) cs = Some q
             \<and> m_size q \<le> maxSize \<and> length (pooled q) = unat (m_size q)))"
proof (intro conjI impI)
  show "release p d = (p\<lparr> m_size := m_size p + 1, m_next := (m_next p)(d := m_head p),
                           m_head := d \<rparr>, [])"
    if "m_size p < m_maxSize p"
    using that by (simp add: release_def)
  show "release p d = (p, [d])" if "\<not> m_size p < m_maxSize p"
    using that by (simp add: release_def)
  show "pooled (fst (release p d)) = d # pooled p"
    if "pool_inv p \<and> d \<noteq> 0 \<and> d \<notin> set (pooled p) \<and> m_size p < m_maxSize p"
    using that pool_inv_release [of p d] by simp
  show "\<exists>q. release_all (Pool nxt maxSize) xs = (q, [last xs])
            \<and> pooled q = rev (butlast xs) \<and> m_size q = maxSize"
    if h: "distinct xs \<and> 0 \<notin> set xs \<and> length xs = unat maxSize + 1"
  proof -
    let ?p = "Pool nxt maxSize"
    have inv: "pool_inv ?p" and e: "pooled ?p = []" using pool_inv_new [of nxt maxSize] by simp_all
    have k: "unat (m_maxSize ?p) - unat (m_size ?p) = unat maxSize" by (simp add: Pool_def)
    from h have "distinct xs" "0 \<notin> set xs" "set xs \<inter> set (pooled ?p) = {}" using e by simp_all
    from release_all_shape [OF inv this] k e obtain q
      where q: "release_all ?p xs = (q, drop (unat maxSize) xs)" "pool_inv q"
        "m_maxSize q = m_maxSize ?p" "pooled q = rev (take (unat maxSize) xs)"
      by auto
    from h have ne: "xs \<noteq> []" and len: "unat maxSize = length xs - 1" by auto
    have dr: "drop (unat maxSize) xs = [last xs]"
      unfolding len using ne by (metis append_butlast_last_id append_eq_conv_conj length_butlast)
    have tk: "take (unat maxSize) xs = butlast xs"
      unfolding len by (simp add: butlast_conv_take)
    from q(2,4) tk have "unat (m_size q) = length (butlast xs)"
      by (simp add: pool_inv_def)
    with len have "unat (m_size q) = unat maxSize" by simp
    then have "m_size q = maxSize" by (simp add: word_unat_eq_iff)
    with q dr tk show ?thesis by simp
  qed
  show "\<exists>q. pool_calls (Pool nxt maxSize) cs = Some q
            \<and> m_size q \<le> maxSize \<and> length (pooled q) = unat (m_size q)"
    if "proper (Pool nxt maxSize) cs"
  proof -
    have inv: "pool_inv (Pool nxt maxSize)" using pool_inv_new [of nxt maxSize] by simp
    from pool_inv_calls [OF inv that] obtain q
      where "pool_calls (Pool nxt maxSize) cs = Some q" "pool_inv q"
        "m_maxSize q = m_maxSize (Pool nxt maxSize)"
      by blast
    then show ?thesis by (auto simp: pool_inv_def Pool_def)
  qed
qed

theorem pool_release_bounded_witness:
  "m_size (Pool (\<lambda>_. 0) 2) < m_maxSize (Pool (\<lambda>_. 0) 2)
   \<and> release (Pool (\<lambda>_. 0) 2) 7
       = (\<lparr> m_head = 7, m_size = 1, m_maxSize = 2, m_next = (\<lambda>_. 0)(7 := 0) \<rparr>, [])
   \<and> \<not> m_size (Pool (\<lambda>_. 0) 0) < m_maxSize (Pool (\<lambda>_. 0) 0)
   \<and> release (Pool (\<lambda>_. 0) 0) 7 = (Pool (\<lambda>_. 0) 0, [7])
   \<and> pool_inv (Pool (\<lambda>_. 0) 2) \<and> (7::nat) \<noteq> 0 \<and> 7 \<notin> set (pooled (Pool (\<lambda>_. 0) 2))
   \<and> pooled (fst (release (Pool (\<lambda>_. 0) 2) 7)) = [7]
   \<and> distinct [10, 11, 12 :: nat] \<and> 0 \<notin> set [10, 11, 12 :: nat]
   \<and> length [10, 11, 12 :: nat] = unat (2 :: 32 word) + 1
   \<and> snd (release_all (Pool (\<lambda>_. 0) 2) [10, 11, 12]) = [12]
   \<and> pooled (fst (release_all (Pool (\<lambda>_. 0) 2) [10, 11, 12])) = [11, 10]
   \<and> m_size (fst (release_all (Pool (\<lambda>_. 0) 2) [10, 11, 12])) = 2
   \<and> proper (Pool (\<lambda>_. 0) 2) [OpRelease 21, OpRelease 22, OpRelease 23, OpGet, OpClear, OpRelease 24]
   \<and> (\<exists>q. pool_calls (Pool (\<lambda>_. 0) 2)
                [OpRelease 21, OpRelease 22, OpRelease 23, OpGet, OpClear, OpRelease 24] = Some q
           \<and> m_size q \<le> 2 \<and> length (pooled q) = unat (m_size q))"
proof -
  let ?cs = "[OpRelease 21, OpRelease 22, OpRelease 23, OpGet, OpClear, OpRelease 24]"
  have inv: "pool_inv (Pool (\<lambda>_. 0) 2)" using pool_inv_new [of "\<lambda>_. 0" 2] by simp
  have pr: "proper (Pool (\<lambda>_. 0) 2) ?cs"
    by (simp add: Pool_def release_def get_def clear_def pooled_def
                  chain_numeral clear_loop_null clear_loop_step)
  have a: "m_size (Pool (\<lambda>_. 0) 2) < m_maxSize (Pool (\<lambda>_. 0) 2)"
    and b: "\<not> m_size (Pool (\<lambda>_. 0) 0) < m_maxSize (Pool (\<lambda>_. 0) 0)"
    and c: "7 \<notin> set (pooled (Pool (\<lambda>_. 0) 2))"
    by (simp_all add: Pool_def pooled_def)
  have d: "distinct [10, 11, 12 :: nat] \<and> 0 \<notin> set [10, 11, 12 :: nat]
           \<and> length [10, 11, 12 :: nat] = unat (2 :: 32 word) + 1"
    by simp
  note t = pool_release_bounded [where p = "Pool (\<lambda>_. 0) 2" and d = 7 and xs = "[10, 11, 12]"
             and maxSize = 2 and nxt = "\<lambda>_. 0" and cs = ?cs]
  note t0 = pool_release_bounded [where p = "Pool (\<lambda>_. 0) 0" and d = 7 and xs = "[]"
             and maxSize = 0 and nxt = "\<lambda>_. 0" and cs = "[]"]
  from t a have "release (Pool (\<lambda>_. 0) 2) 7
       = ((Pool (\<lambda>_. 0) 2)\<lparr> m_size := m_size (Pool (\<lambda>_. 0) 2) + 1,
             m_next := (m_next (Pool (\<lambda>_. 0) 2))(7 := m_head (Pool (\<lambda>_. 0) 2)),
             m_head := 7 \<rparr>, [])"
    by blast
  then have r1: "release (Pool (\<lambda>_. 0) 2) 7
       = (\<lparr> m_head = 7, m_size = 1, m_maxSize = 2, m_next = (\<lambda>_. 0)(7 := 0) \<rparr>, [])"
    by (simp add: Pool_def)
  from t0 b have r2: "release (Pool (\<lambda>_. 0) 0) 7 = (Pool (\<lambda>_. 0) 0, [7])" by blast
  have e: "(7::nat) \<noteq> 0" and f: "pooled (Pool (\<lambda>_. 0) 2) = []"
    by (simp_all add: Pool_def pooled_def)
  from t inv a c e have "pooled (fst (release (Pool (\<lambda>_. 0) 2) 7)) = 7 # pooled (Pool (\<lambda>_. 0) 2)"
    by blast
  with f have r3: "pooled (fst (release (Pool (\<lambda>_. 0) 2) 7)) = [7]" by simp
  from t d obtain q where q: "release_all (Pool (\<lambda>_. 0) 2) [10, 11, 12] = (q, [last [10, 11, 12]])"
      "pooled q = rev (butlast [10, 11, 12])" "m_size q = 2"
    by blast
  from t pr have r5: "\<exists>q. pool_calls (Pool (\<lambda>_. 0) 2) ?cs = Some q
           \<and> m_size q \<le> 2 \<and> length (pooled q) = unat (m_size q)"
    by blast
  from q have r4: "snd (release_all (Pool (\<lambda>_. 0) 2) [10, 11, 12]) = [12]"
      "pooled (fst (release_all (Pool (\<lambda>_. 0) 2) [10, 11, 12])) = [11, 10]"
      "m_size (fst (release_all (Pool (\<lambda>_. 0) 2) [10, 11, 12])) = 2"
    by simp_all
  from a b c d e inv pr r1 r2 r3 r4 r5 show ?thesis by blast
qed

section \<open>Properties of the global statement\<close>

lemma StmtGlobal_loop_all:
  assumes "\<forall>s \<in> set syms. globals ctx s \<noteq> None"
  shows "StmtGlobal_loop line syms ctx
           = ctx\<lparr> symbols := (\<lambda>x. if x \<in> set syms then globals ctx x else symbols ctx x) \<rparr>"
  using assms
proof (induction syms arbitrary: ctx)
  case Nil
  show ?case by simp
next
  case (Cons s rest)
  from Cons.prems obtain d where d: "globals ctx s = Some d" by auto
  let ?c = "defineSymbol s d ctx"
  have g: "globals ?c = globals ctx" by (simp add: defineSymbol_def)
  have "\<forall>x \<in> set rest. globals ?c x \<noteq> None" using Cons.prems g by simp
  from Cons.IH [OF this]
  have "StmtGlobal_loop line rest ?c
          = ?c\<lparr> symbols := (\<lambda>x. if x \<in> set rest then globals ?c x else symbols ?c x) \<rparr>" .
  moreover have "(\<lambda>x. if x \<in> set rest then globals ?c x else symbols ?c x)
          = (\<lambda>x. if x \<in> set (s # rest) then globals ctx x else symbols ctx x)"
    using d by (auto simp: defineSymbol_def fun_eq_iff)
  ultimately show ?case
    using d by (simp add: resolveVariable_def defineSymbol_def)
qed

lemma StmtGlobal_loop_undefined:
  assumes "\<forall>s \<in> set before. globals ctx s \<noteq> None" and "globals ctx s = None"
  shows "StmtGlobal_loop line (before @ s # after) ctx
           = ctx\<lparr> symbols := (\<lambda>x. if x \<in> set before then globals ctx x else symbols ctx x),
                  raised := Some (CodeError
                    \<lparr> m_errorCode = e_undef_sym, m_line = line,
                      m_module = (case function_module (m_function ctx) of
                                    None \<Rightarrow> [] | Some m \<Rightarrow> m),
                      m_symbol = function_name (m_function ctx), m_extra = s \<rparr>) \<rparr>"
  using assms
proof (induction before arbitrary: ctx)
  case Nil
  then show ?case
    by (simp add: resolveVariable_def raiseError_def extra_def symbol_def ErrorParam_def Let_def)
next
  case (Cons b before)
  from Cons.prems obtain d where d: "globals ctx b = Some d" by auto
  let ?c = "defineSymbol b d ctx"
  have g: "globals ?c = globals ctx" and f: "m_function ?c = m_function ctx"
    by (simp_all add: defineSymbol_def)
  have "\<forall>x \<in> set before. globals ?c x \<noteq> None" and "globals ?c s = None"
    using Cons.prems g by simp_all
  note IH = Cons.IH [OF this]
  have "(\<lambda>x. if x \<in> set before then globals ?c x else symbols ?c x)
          = (\<lambda>x. if x \<in> set (b # before) then globals ctx x else symbols ctx x)"
    using d by (auto simp: defineSymbol_def fun_eq_iff)
  with IH show ?case
    using d by (simp add: resolveVariable_def defineSymbol_def)
qed

lemma popCode_fields:
  "globals (popCode ctx) = globals ctx" "symbols (popCode ctx) = symbols ctx"
  "m_function (popCode ctx) = m_function ctx"
  by (simp_all add: popCode_def)

text \<open>
  C8. When every symbol of a \<open>global\<close> statement resolves in the global scope, the
  statement pops its step and binds each symbol to its global slot, and nothing else;
  the local variables play no part in what is bound. When a symbol does not resolve,
  the symbols before it are bound, a \<open>CodeError\<close> with the code \<open>e_undef_sym\<close>, the line
  of the statement, the module and the name of the current function and the name of
  the symbol is raised, and the symbols after it are not bound.
\<close>

theorem StmtGlobal_binds_globals:
  "(syms \<noteq> [] \<and> (\<forall>s \<in> set syms. globals ctx s \<noteq> None) \<longrightarrow>
      StmtGlobal_apply syms line ctx
        = ctx\<lparr> codeStack := tl (codeStack ctx),
               symbols := (\<lambda>x. if x \<in> set syms then globals ctx x else symbols ctx x) \<rparr>)
   \<and> ((\<forall>s \<in> set before. globals ctx s \<noteq> None) \<and> globals ctx s = None \<longrightarrow>
      StmtGlobal_apply (before @ s # after) line ctx
        = ctx\<lparr> codeStack := tl (codeStack ctx),
               symbols := (\<lambda>x. if x \<in> set before then globals ctx x else symbols ctx x),
               raised := Some (CodeError
                 \<lparr> m_errorCode = e_undef_sym, m_line = line,
                   m_module = (case function_module (m_function ctx) of
                                 None \<Rightarrow> [] | Some m \<Rightarrow> m),
                   m_symbol = function_name (m_function ctx), m_extra = s \<rparr>) \<rparr>)
   \<and> symbols (StmtGlobal_apply syms line (ctx\<lparr> locals := l \<rparr>))
        = symbols (StmtGlobal_apply syms line ctx)"
proof (intro conjI impI)
  assume a: "syms \<noteq> [] \<and> (\<forall>s \<in> set syms. globals ctx s \<noteq> None)"
  then have "\<forall>s \<in> set syms. globals (popCode ctx) s \<noteq> None" by (simp add: popCode_def)
  from StmtGlobal_loop_all [OF this, unfolded popCode_fields] a
  show "StmtGlobal_apply syms line ctx
        = ctx\<lparr> codeStack := tl (codeStack ctx),
               symbols := (\<lambda>x. if x \<in> set syms then globals ctx x else symbols ctx x) \<rparr>"
    by (simp add: StmtGlobal_apply_def popCode_def)
next
  assume a: "(\<forall>s \<in> set before. globals ctx s \<noteq> None) \<and> globals ctx s = None"
  then have "\<forall>x \<in> set before. globals (popCode ctx) x \<noteq> None" "globals (popCode ctx) s = None"
    by (simp_all add: popCode_def)
  from StmtGlobal_loop_undefined [OF this, unfolded popCode_fields]
  show "StmtGlobal_apply (before @ s # after) line ctx
        = ctx\<lparr> codeStack := tl (codeStack ctx),
               symbols := (\<lambda>x. if x \<in> set before then globals ctx x else symbols ctx x),
               raised := Some (CodeError
                 \<lparr> m_errorCode = e_undef_sym, m_line = line,
                   m_module = (case function_module (m_function ctx) of
                                 None \<Rightarrow> [] | Some m \<Rightarrow> m),
                   m_symbol = function_name (m_function ctx), m_extra = s \<rparr>) \<rparr>"
    by (simp add: StmtGlobal_apply_def popCode_def)
next
  have loop: "symbols (StmtGlobal_loop line xs (c\<lparr> locals := l \<rparr>))
                = symbols (StmtGlobal_loop line xs c)" for xs c
  proof (induction xs arbitrary: c)
    case Nil
    show ?case by simp
  next
    case (Cons x xs)
    show ?case
    proof (cases "globals c x")
      case None
      then show ?thesis by (simp add: resolveVariable_def raiseError_def Let_def)
    next
      case (Some d)
      have "defineSymbol x d (c\<lparr> locals := l \<rparr>) = (defineSymbol x d c)\<lparr> locals := l \<rparr>"
        by (simp add: defineSymbol_def)
      with Some Cons.IH [of "defineSymbol x d c"] show ?thesis
        by (simp add: resolveVariable_def)
    qed
  qed
  have "popCode (ctx\<lparr> locals := l \<rparr>) = (popCode ctx)\<lparr> locals := l \<rparr>" by (simp add: popCode_def)
  with loop [of syms "popCode ctx"]
  show "symbols (StmtGlobal_apply syms line (ctx\<lparr> locals := l \<rparr>))
        = symbols (StmtGlobal_apply syms line ctx)"
    by (simp add: StmtGlobal_apply_def)
qed

theorem StmtGlobal_binds_globals_witness:
  "symbols (StmtGlobal_apply [''x'', ''y''] 3
      \<lparr> codeStack = [0], m_function = \<lparr> function_name = ''f'', function_module = Some ''main'' \<rparr>,
        locals = [''x'' \<mapsto> 1], globals = [''x'' \<mapsto> 10, ''y'' \<mapsto> 11],
        symbols = [''x'' \<mapsto> 1], raised = None \<rparr>) ''x'' = Some 10
   \<and> raised (StmtGlobal_apply [''x'', ''y''] 3
      \<lparr> codeStack = [0], m_function = \<lparr> function_name = ''f'', function_module = Some ''main'' \<rparr>,
        locals = [''x'' \<mapsto> 1], globals = [''x'' \<mapsto> 10, ''y'' \<mapsto> 11],
        symbols = [''x'' \<mapsto> 1], raised = None \<rparr>) = None
   \<and> raised (StmtGlobal_apply ([''x''] @ ''z'' # [''y'']) 3
      \<lparr> codeStack = [0], m_function = \<lparr> function_name = ''f'', function_module = Some ''main'' \<rparr>,
        locals = [''x'' \<mapsto> 1], globals = [''x'' \<mapsto> 10, ''y'' \<mapsto> 11],
        symbols = [''x'' \<mapsto> 1], raised = None \<rparr>)
       = Some (CodeError \<lparr> m_errorCode = e_undef_sym, m_line = 3, m_module = ''main'',
                           m_symbol = ''f'', m_extra = ''z'' \<rparr>)
   \<and> symbols (StmtGlobal_apply ([''x''] @ ''z'' # [''y'']) 3
      \<lparr> codeStack = [0], m_function = \<lparr> function_name = ''f'', function_module = Some ''main'' \<rparr>,
        locals = [''x'' \<mapsto> 1], globals = [''x'' \<mapsto> 10, ''y'' \<mapsto> 11],
        symbols = [''x'' \<mapsto> 1], raised = None \<rparr>) ''y'' = None"
  using StmtGlobal_binds_globals [where syms = "[''x'', ''y'']" and line = 3
          and before = "[''x'']" and s = "''z''" and after = "[''y'']"
          and ctx = "\<lparr> codeStack = [0],
              m_function = \<lparr> function_name = ''f'', function_module = Some ''main'' \<rparr>,
              locals = [''x'' \<mapsto> 1], globals = [''x'' \<mapsto> 10, ''y'' \<mapsto> 11],
              symbols = [''x'' \<mapsto> 1], raised = None \<rparr>"]
  by simp

end
